theory Spec2Isabelle
  imports Main "HOL-Library.Char_ord" "HOL-Library.List_Lexorder" "HOL-Library.AList"
begin

section \<open>Data model\<close>

text \<open>
  Every adapter stores its results in a dict from a composite key to a small dict with
  the fields \<open>url\<close>, \<open>logo\<close>, \<open>base\<close>, \<open>timestamp\<close>, \<open>id\<close> (and \<open>href\<close> for
  fstv).  The field \<open>id\<close> is called \<open>tvg_id\<close> here.  \<open>url\<close> is an option: watchfooty
  stores Python's \<open>None\<close> there when a resolution produced nothing.  Timestamps are
  whole seconds.  A link is either a string taken from the source as it is, or
  \<open>urljoin(base, path)\<close>, which is kept as the pair of its arguments.
\<close>

datatype link = Link string | Urljoin string string

record entry =
  url :: "string option"
  logo :: link
  base :: string
  timestamp :: int
  tvg_id :: string
  href :: "string option"

text \<open>Python truthiness of the values the adapters test with \<open>if url\<close>.\<close>

fun truthy :: "string option \<Rightarrow> bool" where
  "truthy None = False"
| "truthy (Some s) = (s \<noteq> [])"

text \<open>
  The exceptions that matter to the control flow.  \<open>CancelledError\<close> is a
  \<open>BaseException\<close>, not an \<open>Exception\<close>: an \<open>except Exception\<close> clause lets it pass.
  \<open>TimeoutError\<close> is \<open>asyncio.TimeoutError\<close>.
\<close>

datatype error =
  TypeError | IndexError | KeyError | ValueError | AttributeError | TimeoutError
  | CancelledError | OtherError string

definition is_Exception :: "error \<Rightarrow> bool" where
  "is_Exception e = (e \<noteq> CancelledError)"

section \<open>Cache store\<close>

text \<open>
  Modelled from the spec: the class \<open>Cache\<close> (\<open>scrapers/utils/caching.py\<close>) is not
  among the source files; only its uses \<open>Cache(path, exp=...)\<close>, \<open>load()\<close> and
  \<open>write(...)\<close> are.  The spec says: \<open>load()\<close> drops any entry older than the
  configured TTL, an entry's age is now minus its discovery timestamp, \<open>load()\<close> never
  returns an entry whose age is at least the TTL, and a missing or corrupt underlying
  file yields an empty map.
\<close>

datatype snapshot_file = Missing | Corrupt | Snapshot "string \<rightharpoonup> entry"

record cache =
  exp :: int
  store :: snapshot_file

definition age :: "int \<Rightarrow> entry \<Rightarrow> int" where
  "age now e = now - timestamp e"

text \<open>Modelled from the spec: \<open>Cache.load\<close> in per-entry mode, see above.\<close>

definition load :: "cache \<Rightarrow> int \<Rightarrow> (string \<rightharpoonup> entry)" where
  "load c now =
     (case store c of
        Missing \<Rightarrow> Map.empty
      | Corrupt \<Rightarrow> Map.empty
      | Snapshot m \<Rightarrow>
          (\<lambda>k. case m k of
                 None \<Rightarrow> None
               | Some e \<Rightarrow> if age now e < exp c then Some e else None))"

text \<open>Modelled from the spec: \<open>Cache.write\<close> replaces the full stored map.\<close>

definition cache_write :: "cache \<Rightarrow> (string \<rightharpoonup> entry) \<Rightarrow> cache" where
  "cache_write c m = c\<lparr>store := Snapshot m\<rparr>"

section \<open>Aggregator\<close>

text \<open>
  A Python dict with its insertion order: an association list whose keys are distinct.
  \<open>a | b\<close> copies \<open>a\<close> and stores every item of \<open>b\<close> in order.
\<close>

type_synonym dict = "(string \<times> entry) list"

definition dict_or :: "dict \<Rightarrow> dict \<Rightarrow> dict" where
  "dict_or a b = fold (\<lambda>(k, v) d. AList.update k v d) b a"

text \<open>
  \<open>load_base\<close> (fetch.py): \<open>re.findall\<close> of \<open>tvg-chno="(\d+)"\<close> in the text of the base
  playlist, the maximum of the numbers found (0 when there is none), and the lines of the
  text.  \<open>findall_chno skip s\<close> scans from left to right; \<open>skip\<close> is the number of
  characters still covered by the last match, since matches do not overlap.  Characters
  are code points below 256, where \<open>\d\<close> is the ASCII digits.
\<close>

definition is_digit :: "char \<Rightarrow> bool" where
  "is_digit c = (CHR ''0'' \<le> c \<and> c \<le> CHR ''9'')"

definition int_of_digits :: "string \<Rightarrow> nat" where
  "int_of_digits ds = fold (\<lambda>c n. 10 * n + (of_char c - 48)) ds 0"

definition match_chno :: "string \<Rightarrow> (nat \<times> nat) option" where
  "match_chno s =
     (if take 10 s = ''tvg-chno=\"'' then
        (let ds = takeWhile is_digit (drop 10 s); r = dropWhile is_digit (drop 10 s)
         in if ds \<noteq> [] \<and> take 1 r = ''\"''
            then Some (int_of_digits ds, 10 + length ds + 1) else None)
      else None)"

fun findall_chno :: "nat \<Rightarrow> string \<Rightarrow> nat list" where
  "findall_chno skip [] = []"
| "findall_chno skip (c # cs) =
     (if 0 < skip then findall_chno (skip - 1) cs
      else (case match_chno (c # cs) of
              Some (n, len) \<Rightarrow> n # findall_chno (len - 1) cs
            | None \<Rightarrow> findall_chno 0 cs))"


text \<open>\<open>str.splitlines\<close>: the line boundaries below code point 256; CR LF counts once.\<close>

definition is_linebreak :: "char \<Rightarrow> bool" where
  "is_linebreak c = (c \<in> set [CHR 0x0A, CHR 0x0D, CHR 0x0B, CHR 0x0C, CHR 0x1C, CHR 0x1D, CHR 0x1E, CHR 0x85])"

function splitlines :: "string \<Rightarrow> string \<Rightarrow> string list" where
  "splitlines cur [] = (if cur = [] then [] else [rev cur])"
| "splitlines cur (c # cs) =
     (if is_linebreak c
      then rev cur # splitlines [] (if c = CHR 0x0D \<and> take 1 cs = [CHR 0x0A] then tl cs else cs)
      else splitlines (c # cur) cs)"
  by pat_completeness auto
termination
  by (relation "measure (\<lambda>(cur, s). length s)") auto

definition load_base :: "string \<Rightarrow> string list \<times> nat" where
  "load_base data =
     (let last_chnl_num = (case findall_chno 0 data of [] \<Rightarrow> 0 | n # ns \<Rightarrow> fold max ns n)
      in (splitlines [] data, last_chnl_num))"

text \<open>
  The lines \<open>main\<close> emits, by their fields: the \<open>#EXTINF\<close> line carries \<open>tvg-chno\<close>,
  \<open>tvg-id\<close>, the event name and \<open>tvg-logo\<close>.  \<open>main_loop\<close> is the
  \<open>for i, (event, info) in enumerate(sorted(additions.items()), start=1)\<close> loop;
  \<open>main_merge\<close> is \<open>main\<close> from \<open>load_base\<close> on, given the merged dict
  \<open>additions\<close>, and returns the lines of the combined and of the live-only playlist.
  \<open>sorted\<close> compares the items by key: the keys of a dict are distinct, so the
  comparison never reaches the values.
\<close>

datatype line =
    Text string
  | EXTINF nat string string link
  | EXTVLCOPT_referrer string
  | EXTVLCOPT_origin string
  | EXTVLCOPT_user_agent
  | URL "string option"

definition vlc_block :: "entry \<Rightarrow> line list" where
  "vlc_block info =
     [EXTVLCOPT_referrer (base info), EXTVLCOPT_origin (base info), EXTVLCOPT_user_agent,
      URL (url info)]"

fun main_loop :: "nat \<Rightarrow> nat \<Rightarrow> dict \<Rightarrow> line list \<times> line list" where
  "main_loop tvg_chno i [] = ([], [])"
| "main_loop tvg_chno i ((event, info) # rest) =
     (let extinf_all = EXTINF (tvg_chno + i) (tvg_id info) event (logo info);
          extinf_live = EXTINF i (tvg_id info) event (logo info);
          (combined_channels, live_events) = main_loop tvg_chno (Suc i) rest
      in (extinf_all # vlc_block info @ combined_channels,
          extinf_live # vlc_block info @ live_events))"

definition main_merge :: "string \<Rightarrow> dict \<Rightarrow> line list \<times> line list" where
  "main_merge data additions =
     (let (base_m3u8, tvg_chno) = load_base data;
          (combined_channels, live_events) = main_loop tvg_chno 1 (sort_key fst additions)
      in (map Text base_m3u8 @ combined_channels, live_events))"

text \<open>The channel numbers and the event names of the \<open>#EXTINF\<close> lines, in order.\<close>

fun chnos :: "line list \<Rightarrow> nat list" where
  "chnos [] = []"
| "chnos (EXTINF n i e l # ls) = n # chnos ls"
| "chnos (_ # ls) = chnos ls"

fun names :: "line list \<Rightarrow> string list" where
  "names [] = []"
| "names (EXTINF n i e l # ls) = e # names ls"
| "names (_ # ls) = names ls"

text \<open>The maximum \<open>tvg-chno\<close> of a base playlist, 0 when it has none.\<close>

definition base_max :: "string \<Rightarrow> nat" where
  "base_max data = (if findall_chno 0 data = [] then 0 else Max (set (findall_chno 0 data)))"

text \<open>An entry for examples.\<close>

definition ex_entry :: "string \<Rightarrow> entry" where
  "ex_entry u = \<lparr>url = Some u, logo = Link ''l'', base = ''b'', timestamp = 0,
     tvg_id = ''Live.Event.us'', href = None\<rparr>"

section \<open>Discovery\<close>

text \<open>The events the \<open>get_events\<close> of ppv and of watchfooty return.\<close>

record event =
  ev_sport :: string
  ev_event :: string
  ev_link :: link
  ev_logo :: "link option"
  ev_timestamp :: int

text \<open>
  The time window of ppv and watchfooty: \<open>Time.clean(Time.now())\<close> drops the seconds,
  \<open>delta(minutes=-30)\<close> and \<open>delta(minutes=30)\<close> give its ends, both included.
\<close>

definition clean :: "int \<Rightarrow> int" where
  "clean now = now - now mod 60"

definition start_dt :: "int \<Rightarrow> int" where
  "start_dt now = clean now - 30 * 60"

definition end_dt :: "int \<Rightarrow> int" where
  "end_dt now = clean now + 30 * 60"

text \<open>
  \<open>Time.from_ts(ts)\<close> is \<open>datetime.fromtimestamp(ts, tz)\<close>, which raises for a
  timestamp outside the years \<open>datetime\<close> can hold (ValueError, or OverflowError for
  still larger numbers: one error here).  Which timestamps are inside depends on the
  platform and the time zone: \<open>representable\<close> says it.
\<close>

definition from_ts :: "(int \<Rightarrow> bool) \<Rightarrow> int \<Rightarrow> error + int" where
  "from_ts representable t = (if representable t then Inr t else Inl ValueError)"

subsection \<open>ppv\<close>







subsection \<open>fstv\<close>

text \<open>
  \<open>str.strip()\<close>: the white space below code point 256.
\<close>

definition is_space :: "char \<Rightarrow> bool" where
  "is_space c = (c \<in> set [CHR '' '', CHR 0x09, CHR 0x0A, CHR 0x0B, CHR 0x0C, CHR 0x0D,
                          CHR 0x1C, CHR 0x1D, CHR 0x1E, CHR 0x1F, CHR 0x85, CHR 0xA0])"

definition strip :: "string \<Rightarrow> string" where
  "strip s = rev (dropWhile is_space (rev (dropWhile is_space s)))"

text \<open>
  The parsed page of fstv: the \<open>div.fixtures-live-wrapper\<close> elements, each with its
  league blocks; a league block has the text of its \<open>a.league-name\<close> element (if there
  is one) and the \<open>href\<close> attributes of the match links under its parent.  The request
  for the page may fail: then \<open>get_events\<close> returns no event.  \<open>get_events\<close> adds every
  href it returns to the set \<open>cached_hrefs\<close> it was given, so the set is returned too.
\<close>

record league_block =
  league_name_el :: "string option"
  games :: "string option list"

record fstv_event =
  fs_sport :: string
  fs_link :: link
  fs_href :: string

definition fstv_event_name :: "string \<Rightarrow> string" where
  "fstv_event_name full_text =
     (if CHR '']'' \<in> set full_text
      then strip (tl (dropWhile (\<lambda>c. c \<noteq> CHR '']'') full_text))
      else full_text)"

fun fstv_games :: "string \<Rightarrow> string \<Rightarrow> string option list \<Rightarrow> string set
    \<Rightarrow> fstv_event list \<times> string set" where
  "fstv_games base_url event_name [] cached_hrefs = ([], cached_hrefs)"
| "fstv_games base_url event_name (game # rest) cached_hrefs =
     (case game of
        None \<Rightarrow> fstv_games base_url event_name rest cached_hrefs
      | Some h \<Rightarrow>
          if h = [] then fstv_games base_url event_name rest cached_hrefs
          else if h \<in> cached_hrefs then fstv_games base_url event_name rest cached_hrefs
          else (let (events, hrefs) = fstv_games base_url event_name rest (insert h cached_hrefs)
                in (\<lparr>fs_sport = event_name, fs_link = Urljoin base_url h, fs_href = h\<rparr> # events,
                    hrefs)))"

fun fstv_blocks :: "string \<Rightarrow> league_block list \<Rightarrow> string set \<Rightarrow> fstv_event list \<times> string set" where
  "fstv_blocks base_url [] cached_hrefs = ([], cached_hrefs)"
| "fstv_blocks base_url (b # bs) cached_hrefs =
     (case league_name_el b of
        None \<Rightarrow> fstv_blocks base_url bs cached_hrefs
      | Some full_text \<Rightarrow>
          (let (events, hrefs) = fstv_games base_url (fstv_event_name full_text) (games b) cached_hrefs;
               (events', hrefs') = fstv_blocks base_url bs hrefs
           in (events @ events', hrefs')))"

definition fstv_get_events :: "string \<Rightarrow> league_block list list option \<Rightarrow> string set
    \<Rightarrow> fstv_event list \<times> string set" where
  "fstv_get_events base_url page cached_hrefs =
     (case page of
        None \<Rightarrow> ([], cached_hrefs)
      | Some wrappers \<Rightarrow> fstv_blocks base_url (concat wrappers) cached_hrefs)"

text \<open>
  Inputs for examples: a range of timestamps, three ppv streams inside the time window,
  and an fstv page.
\<close>

definition ex_representable :: "int \<Rightarrow> bool" where
  "ex_representable t = (0 \<le> t \<and> t \<le> 253402300799)"




definition ex_page :: "league_block list list option" where
  "ex_page = Some [[\<lparr>league_name_el = Some ''[x] NBA'',
      games = [Some ''/match/1'', Some ''/match/2'', None, Some ''/match/1'']\<rparr>]]"

section \<open>Network (webwork.py)\<close>

subsection \<open>Mirror selection\<close>

text \<open>
  What \<open>await self.client.get(url)\<close> does: a response with its status code, an
  \<open>httpx.HTTPError\<close>, an \<open>httpx.TimeoutException\<close>, or an exception of another class
  (\<open>httpx.InvalidURL\<close> for instance is not an \<open>HTTPError\<close>).  \<open>raise_for_status\<close>
  raises an \<open>HTTPError\<close> unless the status is a 2xx.
\<close>

datatype get_result = Response nat | HTTPError | TimeoutException | GetRaises error

definition check_status :: "(string \<Rightarrow> get_result) \<Rightarrow> string \<Rightarrow> error + bool" where
  "check_status client_get link =
     (case client_get link of
        Response status_code \<Rightarrow>
          if \<not> (200 \<le> status_code \<and> status_code \<le> 299) then Inr False
          else Inr (status_code = 200)
      | HTTPError \<Rightarrow> Inr False
      | TimeoutException \<Rightarrow> Inr False
      | GetRaises e \<Rightarrow> Inl e)"

text \<open>
  \<open>asyncio.gather(*tasks, return_exceptions=True)\<close> returns, in the order of its
  arguments whatever the order of completion, the result of each task, or the exception
  object if the task raised.  In \<open>if success\<close> an exception object is truthy.
\<close>

definition success_truthy :: "error + bool \<Rightarrow> bool" where
  "success_truthy success = (case success of Inl e \<Rightarrow> True | Inr b \<Rightarrow> b)"

definition get_base :: "(string \<Rightarrow> get_result) \<Rightarrow> string list \<Rightarrow> string option" where
  "get_base client_get mirrors =
     (let results = map (check_status client_get) mirrors;
          working_mirrors =
            map fst (filter (\<lambda>(mirror, success). success_truthy success) (zip mirrors results))
      in case working_mirrors of [] \<Rightarrow> None | mirror # _ \<Rightarrow> Some mirror)"

text \<open>An environment for examples: the first mirror makes \<open>get\<close> raise, the second is down.\<close>

definition ex_client_get :: "string \<Rightarrow> get_result" where
  "ex_client_get link =
     (if link = ''https://a:x'' then GetRaises (OtherError ''InvalidURL'')
      else if link = ''https://c'' then Response 200
      else HTTPError)"

subsection \<open>Bounded resolution\<close>

text \<open>
  The coroutine \<open>fn()\<close> as \<open>safe_process\<close> sees it.  Left alone it ends at some
  time with a result or an exception, or never ends.  When it is cancelled while pending,
  \<open>on_cancel\<close> says how it ends: with \<open>CancelledError\<close> in the ordinary case, with
  another exception when its clean-up raises, with a result when it catches the
  cancellation and returns; \<open>None\<close> when it catches the cancellation and never ends.
  Times and timeouts are in one unit.
\<close>

datatype 'a outcome = Returns 'a | Raises error

record 'a coroutine =
  finish :: "(nat \<times> 'a outcome) option"
  on_cancel :: "'a outcome option"

datatype 'a task_state = Pending | CancelRequested | Finished "'a outcome"

datatype level = DEBUG | INFO | WARNING | ERROR

text \<open>
  What is done to the task: \<open>CreateTask\<close>, \<open>WaitFor\<close>, \<open>Cancel\<close> and \<open>Await\<close> are
  the statements of \<open>safe_process\<close>; \<open>WaitForCancel\<close> and \<open>WaitForAwait\<close> are what
  \<open>asyncio.wait_for\<close> does itself at the deadline.
\<close>

datatype task_op = CreateTask | WaitFor | WaitForCancel | WaitForAwait | Cancel | Await

text \<open>
  \<open>task.cancel()\<close> requests the cancellation of a pending task and does nothing to a
  finished one.  \<open>await task\<close> runs the task to its end and gives its outcome; it does
  not return when the task never ends.
\<close>

definition task_cancel :: "'a task_state \<Rightarrow> 'a task_state" where
  "task_cancel st = (case st of Pending \<Rightarrow> CancelRequested | _ \<Rightarrow> st)"

definition await_task :: "'a coroutine \<Rightarrow> 'a task_state \<Rightarrow> 'a outcome option" where
  "await_task co st =
     (case st of
        Pending \<Rightarrow> map_option snd (finish co)
      | CancelRequested \<Rightarrow> on_cancel co
      | Finished out \<Rightarrow> Some out)"

definition expired :: "'a coroutine \<Rightarrow> nat \<Rightarrow> bool" where
  "expired fn timeout = (case finish fn of None \<Rightarrow> True | Some (d, out) \<Rightarrow> \<not> d < timeout)"

text \<open>
  \<open>asyncio.wait_for(task, timeout)\<close>: the outcome of the task if it ends before the
  deadline.  Otherwise it cancels the task and waits until the task has ended, which may
  be never; then it raises \<open>TimeoutError\<close> in place of the task's \<open>CancelledError\<close>,
  and passes on any other outcome of the cancelled task, a result included.
\<close>

definition wait_for :: "'a coroutine \<Rightarrow> nat \<Rightarrow> ('a task_state \<times> 'a outcome \<times> task_op list) option" where
  "wait_for co timeout =
     (if expired co timeout then
        (case on_cancel co of
           None \<Rightarrow> None
         | Some (Returns v) \<Rightarrow>
             Some (Finished (Returns v), Returns v, [WaitFor, WaitForCancel, WaitForAwait])
         | Some (Raises e) \<Rightarrow>
             Some (Finished (Raises e),
                   Raises (if e = CancelledError then TimeoutError else e),
                   [WaitFor, WaitForCancel, WaitForAwait]))
      else
        (case finish co of
           None \<Rightarrow> None
         | Some (d, out) \<Rightarrow> Some (Finished out, out, [WaitFor])))"

record 'a sp_out =
  sp_result :: "error + 'a option"
  sp_log :: "(level \<times> nat) list"
  sp_task :: "'a task_state"
  sp_ops :: "task_op list"

text \<open>
  \<open>safe_process\<close>: the value is \<open>None\<close> when the call does not return; \<open>sp_result\<close>
  is \<open>Inl e\<close> when it raises \<open>e\<close>, \<open>Inr None\<close> when it returns \<open>None\<close>.
\<close>

definition safe_process :: "'a coroutine \<Rightarrow> nat \<Rightarrow> nat \<Rightarrow> 'a sp_out option" where
  "safe_process fn url_num timeout =
     (case wait_for fn timeout of
        None \<Rightarrow> None
      | Some (task, r, wops) \<Rightarrow>
          (case r of
             Returns v \<Rightarrow>
               Some \<lparr>sp_result = Inr (Some v), sp_log = [], sp_task = task,
                     sp_ops = CreateTask # wops\<rparr>
           | Raises e \<Rightarrow>
               if e = TimeoutError then
                 (case await_task fn (task_cancel task) of
                    None \<Rightarrow> None
                  | Some (Returns v) \<Rightarrow>
                      Some \<lparr>sp_result = Inr None, sp_log = [(WARNING, url_num)],
                            sp_task = Finished (Returns v),
                            sp_ops = CreateTask # wops @ [Cancel, Await]\<rparr>
                  | Some (Raises e') \<Rightarrow>
                      if e' = CancelledError then
                        Some \<lparr>sp_result = Inr None, sp_log = [(WARNING, url_num)],
                              sp_task = Finished (Raises e'),
                              sp_ops = CreateTask # wops @ [Cancel, Await]\<rparr>
                      else if is_Exception e' then
                        Some \<lparr>sp_result = Inr None,
                              sp_log = [(WARNING, url_num), (DEBUG, url_num)],
                              sp_task = Finished (Raises e'),
                              sp_ops = CreateTask # wops @ [Cancel, Await]\<rparr>
                      else
                        Some \<lparr>sp_result = Inl e', sp_log = [(WARNING, url_num)],
                              sp_task = Finished (Raises e'),
                              sp_ops = CreateTask # wops @ [Cancel, Await]\<rparr>)
               else if is_Exception e then
                 Some \<lparr>sp_result = Inr None, sp_log = [(ERROR, url_num)], sp_task = task,
                       sp_ops = CreateTask # wops\<rparr>
               else
                 Some \<lparr>sp_result = Inl e, sp_log = [], sp_task = task,
                       sp_ops = CreateTask # wops\<rparr>))"

subsection \<open>Capture of the manifest request\<close>

text \<open>
  \<open>capture_req\<close> searches the URL of a request with the pattern
  \<open>^(?!.*(amazonaws|knitcdn)).*\.m3u8\<close>, compiled with \<open>re.IGNORECASE\<close>.  \<open>^\<close>
  holds at the start of the string only and \<open>.\<close> matches no line feed, so the pattern
  is found exactly when the text before the first line feed, in lower case, contains
  \<open>.m3u8\<close> and none of the two other words.  Below code point 256 only the ASCII
  letters have another case that matches them.
\<close>

definition to_lower :: "char \<Rightarrow> char" where
  "to_lower c = (if CHR ''A'' \<le> c \<and> c \<le> CHR ''Z'' then char_of (of_char c + (32::nat)) else c)"

definition lower :: "string \<Rightarrow> string" where
  "lower s = map to_lower s"

fun contains :: "string \<Rightarrow> string \<Rightarrow> bool" where
  "contains w [] = (w = [])"
| "contains w (c # cs) = (take (length w) (c # cs) = w \<or> contains w cs)"

definition first_line :: "string \<Rightarrow> string" where
  "first_line s = takeWhile (\<lambda>c. c \<noteq> CHR 0x0A) s"

definition invalids :: "string list" where
  "invalids = [''amazonaws'', ''knitcdn'']"

definition pattern_search :: "string \<Rightarrow> bool" where
  "pattern_search req_url =
     (\<not> list_ex (\<lambda>i. contains i (lower (first_line req_url))) invalids
      \<and> contains ''.m3u8'' (lower (first_line req_url)))"

record capture =
  captured :: "string list"
  got_one :: bool

definition capture_req :: "string \<Rightarrow> capture \<Rightarrow> capture" where
  "capture_req req_url c =
     (if pattern_search req_url
      then \<lparr>captured = captured c @ [req_url], got_one = True\<rparr>
      else c)"

text \<open>
  One call of \<open>process_event\<close>, as the page behaves in it.  \<open>new_page\<close> is what
  \<open>await context.new_page()\<close> does.  \<open>goto_reqs\<close> are the requests the page sends, in
  order, from \<open>page.on\<close> until the wait for \<open>got_one\<close> starts, \<open>wait_reqs\<close> those
  it sends from then until \<open>process_event\<close> runs again (when \<open>got_one\<close> is set, or at
  the inner timeout); the handler sees them all.  An awaited step ends, raises an
  \<open>Exception\<close>, or is cancelled from outside, which is what happens at the deadline of
  \<open>safe_process\<close>.
\<close>

datatype step = StepDone | StepRaises | StepCancelled

record page_run =
  new_page :: step
  goto_reqs :: "string list"
  goto_step :: step
  wait_reqs :: "string list"
  wait_cancelled :: bool

text \<open>
  What is done to the page.  \<open>NewPage\<close> stands for a page that was opened: a call of
  \<open>new_page\<close> that fails leaves no page.
\<close>

datatype page_op = NewPage | On | Goto | WaitForSelector | RemoveListener | Close

record pe_out =
  pe_result :: "error + string option"
  pe_log :: "(level \<times> nat) list"
  pe_ops :: "page_op list"

text \<open>
  The parameter \<open>log\<close> of \<open>Network.process_event\<close> is a logger or \<open>None\<close>, its
  default, and is used as it is.  \<open>logged\<close> is a call of \<open>log.warning\<close> or
  \<open>log.info\<close> followed by a \<open>return\<close>: with \<open>None\<close> the call raises
  AttributeError, which \<open>except Exception\<close> catches only to raise it again at its own
  \<open>log.warning\<close>, so it leaves the function once the \<open>finally\<close> clause has run.
\<close>

datatype logger = Logger

definition logged :: "logger option \<Rightarrow> level \<Rightarrow> nat \<Rightarrow> string option \<Rightarrow> page_op list \<Rightarrow> pe_out" where
  "logged log lvl url_num res ops =
     (case log of
        None \<Rightarrow> \<lparr>pe_result = Inl AttributeError, pe_log = [], pe_ops = ops\<rparr>
      | Some l \<Rightarrow> \<lparr>pe_result = Inr res, pe_log = [(lvl, url_num)], pe_ops = ops\<rparr>)"

text \<open>
  The \<open>try\<close> block of \<open>Network.process_event\<close> with its \<open>except Exception\<close> clause,
  then the function with what comes before the \<open>try\<close> and the \<open>finally\<close> clause.
\<close>

definition process_event_try :: "page_run \<Rightarrow> logger option \<Rightarrow> nat \<Rightarrow> pe_out" where
  "process_event_try run log url_num =
     (let c1 = fold capture_req (goto_reqs run) \<lparr>captured = [], got_one = False\<rparr> in
      case goto_step run of
        StepCancelled \<Rightarrow> \<lparr>pe_result = Inl CancelledError, pe_log = [], pe_ops = [Goto]\<rparr>
      | StepRaises \<Rightarrow> logged log WARNING url_num None [Goto]
      | StepDone \<Rightarrow>
          (let c2 = fold capture_req (wait_reqs run) c1 in
           if \<not> got_one c2 then
             (if wait_cancelled run
              then \<lparr>pe_result = Inl CancelledError, pe_log = [], pe_ops = [Goto]\<rparr>
              else logged log WARNING url_num None [Goto])
           else if captured c2 \<noteq> []
             then logged log INFO url_num (Some (hd (captured c2))) [Goto]
           else logged log WARNING url_num None [Goto]))"

definition process_event :: "page_run \<Rightarrow> logger option \<Rightarrow> nat \<Rightarrow> pe_out" where
  "process_event run log url_num =
     (case new_page run of
        StepCancelled \<Rightarrow> \<lparr>pe_result = Inl CancelledError, pe_log = [], pe_ops = []\<rparr>
      | StepRaises \<Rightarrow> \<lparr>pe_result = Inl (OtherError ''new_page''), pe_log = [], pe_ops = []\<rparr>
      | StepDone \<Rightarrow>
          (let r = process_event_try run log url_num
           in r\<lparr>pe_ops := [NewPage, On] @ pe_ops r @ [RemoveListener, Close]\<rparr>))"

text \<open>
  watchfooty's own \<open>process_event\<close>, which logs to the logger of its module: between
  \<open>goto\<close> and the wait it looks for the header of the stream links and reads the number
  in brackets there, \<open>re.search(r"\((\d+)\)", text)\<close>; and it returns the last captured
  URL.  \<open>wait_for_selector\<close> may raise the built-in \<open>TimeoutError\<close>, caught on the
  spot, or another exception, caught by \<open>except Exception\<close>, or be cancelled.
\<close>

fun search_count :: "string \<Rightarrow> nat option" where
  "search_count [] = None"
| "search_count (c # cs) =
     (if c = CHR ''('' \<and> takeWhile is_digit cs \<noteq> []
         \<and> take 1 (dropWhile is_digit cs) = '')''
      then Some (int_of_digits (takeWhile is_digit cs))
      else search_count cs)"

datatype selector_result = HeaderText string | SelectorTimeout | SelectorRaises | SelectorCancelled

record wf_run = page_run +
  selector :: selector_result

definition wf_process_event_try :: "wf_run \<Rightarrow> nat \<Rightarrow> pe_out" where
  "wf_process_event_try run url_num =
     (let c1 = fold capture_req (goto_reqs run) \<lparr>captured = [], got_one = False\<rparr> in
      case goto_step run of
        StepCancelled \<Rightarrow> \<lparr>pe_result = Inl CancelledError, pe_log = [], pe_ops = [Goto]\<rparr>
      | StepRaises \<Rightarrow> \<lparr>pe_result = Inr None, pe_log = [(WARNING, url_num)], pe_ops = [Goto]\<rparr>
      | StepDone \<Rightarrow>
          (case selector run of
             SelectorCancelled \<Rightarrow>
               \<lparr>pe_result = Inl CancelledError, pe_log = [], pe_ops = [Goto, WaitForSelector]\<rparr>
           | SelectorRaises \<Rightarrow>
               \<lparr>pe_result = Inr None, pe_log = [(WARNING, url_num)], pe_ops = [Goto, WaitForSelector]\<rparr>
           | SelectorTimeout \<Rightarrow>
               \<lparr>pe_result = Inr None, pe_log = [(WARNING, url_num)], pe_ops = [Goto, WaitForSelector]\<rparr>
           | HeaderText text \<Rightarrow>
               (if search_count text = None \<or> search_count text = Some 0 then
                  \<lparr>pe_result = Inr None, pe_log = [(WARNING, url_num)],
                    pe_ops = [Goto, WaitForSelector]\<rparr>
                else
                  (let c2 = fold capture_req (wait_reqs run) c1 in
                   if \<not> got_one c2 then
                     (if wait_cancelled run
                      then \<lparr>pe_result = Inl CancelledError, pe_log = [],
                            pe_ops = [Goto, WaitForSelector]\<rparr>
                      else \<lparr>pe_result = Inr None, pe_log = [(WARNING, url_num)],
                            pe_ops = [Goto, WaitForSelector]\<rparr>)
                   else if captured c2 \<noteq> []
                     then \<lparr>pe_result = Inr (Some (last (captured c2))), pe_log = [(INFO, url_num)],
                           pe_ops = [Goto, WaitForSelector]\<rparr>
                   else \<lparr>pe_result = Inr None, pe_log = [(WARNING, url_num)],
                         pe_ops = [Goto, WaitForSelector]\<rparr>))))"

definition wf_process_event :: "wf_run \<Rightarrow> nat \<Rightarrow> pe_out" where
  "wf_process_event run url_num =
     (case new_page run of
        StepCancelled \<Rightarrow> \<lparr>pe_result = Inl CancelledError, pe_log = [], pe_ops = []\<rparr>
      | StepRaises \<Rightarrow> \<lparr>pe_result = Inl (OtherError ''new_page''), pe_log = [], pe_ops = []\<rparr>
      | StepDone \<Rightarrow>
          (let r = wf_process_event_try run url_num
           in r\<lparr>pe_ops := [NewPage, On] @ pe_ops r @ [RemoveListener, Close]\<rparr>))"

text \<open>The requests the handler has seen when \<open>process_event\<close> returns a URL.\<close>

definition seen :: "'a page_run_scheme \<Rightarrow> string list" where
  "seen run = goto_reqs run @ wait_reqs run"

text \<open>Runs for examples.\<close>

definition ex_run :: "string list \<Rightarrow> page_run" where
  "ex_run reqs = \<lparr>new_page = StepDone, goto_reqs = [], goto_step = StepDone, wait_reqs = reqs,
     wait_cancelled = False\<rparr>"

definition ex_wf_run :: "string list \<Rightarrow> wf_run" where
  "ex_wf_run reqs = \<lparr>new_page = StepDone, goto_reqs = [], goto_step = StepDone, wait_reqs = reqs,
     wait_cancelled = False, selector = HeaderText ''Stream Links (2)''\<rparr>"

section \<open>Adapters\<close>

text \<open>
  An adapter resolves its events one after the other through \<open>safe_process\<close> with the
  default timeout of 15.  The value \<open>safe_process\<close> returns is Python's \<open>None\<close> or
  what the wrapped function returned, which may be \<open>None\<close> too.  A scrape that does
  not return is \<open>None\<close>; one that raises \<open>e\<close> is \<open>Some (Inl e)\<close>; otherwise it gives
  the module's dict \<open>urls\<close> and the dict it hands to \<open>CACHE_FILE.write\<close>.
\<close>

definition default_id :: "string option \<Rightarrow> string" where
  "default_id tid = (case tid of None \<Rightarrow> ''Live.Event.us'' | Some t \<Rightarrow> if t = [] then ''Live.Event.us'' else t)"

subsection \<open>watchfooty\<close>

definition wf_MIRRORS :: "string list" where
  "wf_MIRRORS = [''https://www.watchfooty.cc'', ''https://www.watchfooty.vip'',
     ''https://www.watchfooty.live'']"

text \<open>
  An event of the API.  \<open>refresh_api_cache\<close> renames the key \<open>timestamp\<close> of every
  event to \<open>ts\<close>, which raises KeyError for an event without it, and then stamps the
  last event, which raises IndexError when no endpoint gave any event.  \<open>ts = None\<close>
  stands for the absent key.  \<open>api_cache\<close> is what \<open>API_FILE.load\<close> returned (empty
  when there is nothing fresh), \<open>api_results\<close> what the requests to the sport endpoints
  return (\<open>get_api_data\<close> gives \<open>[]\<close> for a request that fails).
\<close>

record wf_api_event =
  matchId :: string
  title :: string
  league :: string
  ts :: "nat option"
  wf_poster :: "string option"

record wf_env =
  wf_client_get :: "string \<Rightarrow> get_result"
  wf_representable :: "int \<Rightarrow> bool"
  api_cache :: "wf_api_event list"
  api_results :: "wf_api_event list list"
  wf_resolve :: "nat \<Rightarrow> event \<Rightarrow> string option coroutine"
  get_tvg_info :: "string \<Rightarrow> string \<Rightarrow> string option \<times> link"

definition refresh_api_cache :: "wf_api_event list list \<Rightarrow> error + wf_api_event list" where
  "refresh_api_cache results =
     (let data = concat results in
      if list_ex (\<lambda>ev. ts ev = None) data then Inl KeyError
      else if data = [] then Inl IndexError
      else Inr data)"

definition wf_key :: "string \<Rightarrow> string \<Rightarrow> string" where
  "wf_key sport nm = ''['' @ sport @ ''] '' @ nm @ '' (WFTY)''"

text \<open>\<open>pattern.split(league, 1)[0].strip()\<close> with the pattern \<open>\-+|\(\<close>.\<close>

definition wf_sport :: "string \<Rightarrow> string" where
  "wf_sport lg = strip (takeWhile (\<lambda>c. c \<noteq> CHR ''-'' \<and> c \<noteq> CHR ''('') lg)"

text \<open>
  The loop of \<open>get_events\<close>.  An event without \<open>ts\<close>, or with \<open>ts\<close> zero, is
  skipped.  \<open>int(str(ts)[:-3])\<close> drops the last three digits, and raises ValueError
  when there are no more than three; \<open>Time.from_ts\<close> raises for a timestamp that
  \<open>datetime\<close> cannot hold.  Then come the test of the time window and, last, the test
  of the key against the cached keys.  The first event that raises ends the loop, and
  nothing is returned.
\<close>

fun wf_events :: "(int \<Rightarrow> bool) \<Rightarrow> string \<Rightarrow> int \<Rightarrow> string set \<Rightarrow> wf_api_event list
    \<Rightarrow> error + event list" where
  "wf_events representable base_url now cached_keys [] = Inr []"
| "wf_events representable base_url now cached_keys (ev # rest) =
     (case ts ev of
        None \<Rightarrow> wf_events representable base_url now cached_keys rest
      | Some t \<Rightarrow>
          if t = 0 then wf_events representable base_url now cached_keys rest
          else if t < 1000 then Inl ValueError
          else
            (case from_ts representable (int (t div 1000)) of
               Inl e \<Rightarrow> Inl e
             | Inr event_dt \<Rightarrow>
                 if \<not> (start_dt now \<le> event_dt \<and> event_dt \<le> end_dt now)
                   then wf_events representable base_url now cached_keys rest
                 else if wf_key (wf_sport (league ev)) (title ev) \<in> cached_keys
                   then wf_events representable base_url now cached_keys rest
                 else
                   (case wf_events representable base_url now cached_keys rest of
                      Inl e \<Rightarrow> Inl e
                    | Inr events \<Rightarrow>
                        Inr (\<lparr>ev_sport = wf_sport (league ev), ev_event = title ev,
                              ev_link = Urljoin base_url (''stream/'' @ matchId ev),
                              ev_logo = (case wf_poster ev of
                                           None \<Rightarrow> None
                                         | Some p \<Rightarrow>
                                             if p = [] then None else Some (Urljoin base_url p)),
                              ev_timestamp = event_dt\<rparr> # events))))"

definition wf_get_events :: "wf_env \<Rightarrow> string \<Rightarrow> int \<Rightarrow> string set \<Rightarrow> error + event list" where
  "wf_get_events env base_url now cached_keys =
     (case (if api_cache env = [] then refresh_api_cache (api_results env)
            else Inr (api_cache env)) of
        Inl e \<Rightarrow> Inl e
      | Inr api_data \<Rightarrow>
          wf_events (wf_representable env) base_url now cached_keys api_data)"

text \<open>
  The loop of \<open>scrape\<close> over the events, numbered from \<open>i\<close>, on the pair of the
  module's dict \<open>urls\<close> and the dict \<open>cached_urls\<close>: the entry is stored in
  \<open>cached_urls\<close> whatever \<open>safe_process\<close> returned, and in \<open>urls\<close> when it
  returned a URL.
\<close>

fun wf_loop :: "wf_env \<Rightarrow> string \<Rightarrow> nat \<Rightarrow> event list \<Rightarrow> dict \<times> dict
    \<Rightarrow> (error + dict \<times> dict) option" where
  "wf_loop env base_url i [] st = Some (Inr st)"
| "wf_loop env base_url i (ev # evs) (urls, cached_urls) =
     (case safe_process (wf_resolve env i ev) i 15 of
        None \<Rightarrow> None
      | Some r \<Rightarrow>
          (case sp_result r of
             Inl e \<Rightarrow> Some (Inl e)
           | Inr v \<Rightarrow>
               (let u = (case v of Some (Some s) \<Rightarrow> Some s | _ \<Rightarrow> None);
                    key = wf_key (ev_sport ev) (ev_event ev);
                    (tid, pic) = get_tvg_info env (ev_sport ev) (ev_event ev);
                    ent = \<lparr>url = u, logo = (case ev_logo ev of Some l \<Rightarrow> l | None \<Rightarrow> pic),
                           base = base_url, timestamp = ev_timestamp ev,
                           tvg_id = default_id tid, href = None\<rparr>
                in wf_loop env base_url (Suc i) evs
                     (if truthy u then AList.update key ent urls else urls,
                      AList.update key ent cached_urls))))"

definition wf_scrape :: "wf_env \<Rightarrow> dict \<Rightarrow> dict \<Rightarrow> int \<Rightarrow> (error + dict \<times> dict) option" where
  "wf_scrape env urls cached_urls now =
     (let valid_urls = filter (\<lambda>(k, v). truthy (url v)) cached_urls;
          urls1 = dict_or urls valid_urls
      in case get_base (wf_client_get env) wf_MIRRORS of
           None \<Rightarrow> Some (Inr (urls1, cached_urls))
         | Some base_url \<Rightarrow>
             (case wf_get_events env base_url now (set (map fst cached_urls)) of
                Inl e \<Rightarrow> Some (Inl e)
              | Inr events \<Rightarrow> wf_loop env base_url 1 events (urls1, cached_urls)))"

subsection \<open>fstv\<close>

definition fstv_MIRRORS :: "string list" where
  "fstv_MIRRORS = [''https://fstv.online'', ''https://fstv.zip'', ''https://fstv.space'',
     ''https://fstv.us'']"

text \<open>
  fstv's \<open>process_event\<close> returns a pair of the match name and the URL, and nothing
  (Python's \<open>None\<close>) for an iframe without \<open>src\<close>.  \<open>scrape\<close> unpacks what
  \<open>safe_process\<close> returns into \<open>match_name, url\<close>, which raises TypeError for
  \<open>None\<close>.
\<close>

record fstv_env =
  fs_client_get :: "string \<Rightarrow> get_result"
  fs_page :: "string \<Rightarrow> league_block list list option"
  fs_resolve :: "nat \<Rightarrow> fstv_event \<Rightarrow> (string \<times> string) option coroutine"
  fs_info :: "string \<Rightarrow> string option \<times> link"

definition fstv_key :: "string \<Rightarrow> string \<Rightarrow> string" where
  "fstv_key sport match_name =
     (if match_name \<noteq> [] then ''['' @ sport @ ''] '' @ match_name @ '' (FSTV)''
      else ''['' @ sport @ ''] (FSTV)'')"

fun fstv_loop :: "fstv_env \<Rightarrow> string \<Rightarrow> int \<Rightarrow> nat \<Rightarrow> fstv_event list \<Rightarrow> dict \<times> dict
    \<Rightarrow> (error + dict \<times> dict) option" where
  "fstv_loop env base_url now i [] st = Some (Inr st)"
| "fstv_loop env base_url now i (ev # evs) (urls, cached_urls) =
     (case safe_process (fs_resolve env i ev) i 15 of
        None \<Rightarrow> None
      | Some r \<Rightarrow>
          (case sp_result r of
             Inl e \<Rightarrow> Some (Inl e)
           | Inr (Some (Some (match_name, u))) \<Rightarrow>
               if u \<noteq> [] then
                 (let key = fstv_key (fs_sport ev) match_name;
                      (tid, lg) = fs_info env (fs_sport ev);
                      ent = \<lparr>url = Some u, logo = lg, base = base_url, timestamp = now,
                             tvg_id = default_id tid, href = Some (fs_href ev)\<rparr>
                  in fstv_loop env base_url now (Suc i) evs
                       (AList.update key ent urls, AList.update key ent cached_urls))
               else fstv_loop env base_url now (Suc i) evs (urls, cached_urls)
           | Inr _ \<Rightarrow> Some (Inl TypeError)))"

definition fstv_scrape :: "fstv_env \<Rightarrow> dict \<Rightarrow> dict \<Rightarrow> int \<Rightarrow> (error + dict \<times> dict) option" where
  "fstv_scrape env urls cached_urls now =
     (if list_ex (\<lambda>(k, v). href v = None) cached_urls then Some (Inl KeyError)
      else
        (let cached_hrefs = set (List.map_filter (\<lambda>(k, v). href v) cached_urls);
             urls1 = dict_or urls cached_urls
         in case get_base (fs_client_get env) fstv_MIRRORS of
              None \<Rightarrow> Some (Inr (urls1, cached_urls))
            | Some base_url \<Rightarrow>
                (let (events, hrefs) = fstv_get_events base_url (fs_page env base_url) cached_hrefs
                 in fstv_loop env base_url now 1 events (urls1, cached_urls))))"

section \<open>Top level (fetch.py)\<close>

text \<open>
  \<open>await asyncio.gather(*tasks)\<close>, without \<open>return_exceptions\<close>: when a task raises,
  \<open>gather\<close> raises its exception in \<open>main\<close>; otherwise it returns the results.  Of
  several tasks that raise, the first in the list is taken here.  \<open>main\<close> is given the
  text of the base playlist and, for each adapter, the exception its \<open>scrape\<close> raised or
  the dict \<open>urls\<close> it filled; it returns the lines of the two playlists it writes, or
  the exception it raises before it writes anything.
\<close>

fun gather :: "(error + 'a) list \<Rightarrow> error + 'a list" where
  "gather [] = Inr []"
| "gather (t # tasks) =
     (case t of
        Inl e \<Rightarrow> Inl e
      | Inr v \<Rightarrow> (case gather tasks of Inl e \<Rightarrow> Inl e | Inr vs \<Rightarrow> Inr (v # vs)))"

definition main :: "string \<Rightarrow> (error + dict) list \<Rightarrow> error + line list \<times> line list" where
  "main data scrapes =
     (case gather scrapes of
        Inl e \<Rightarrow> Inl e
      | Inr urls \<Rightarrow> Inr (main_merge data (foldl dict_or [] urls)))"

text \<open>What a scrape leaves to \<open>main\<close>.\<close>

definition task_of :: "(error + dict \<times> dict) option \<Rightarrow> (error + dict) option" where
  "task_of r = map_option (map_sum id fst) r"

text \<open>
  Environments for examples: a watchfooty run with two events in the window, of which
  the first resolves to a URL and the second runs into the deadline; the same run when
  the API lists one match twice; an fstv run where no resolution ends before the
  deadline, and one where every resolution gives the match name \<open>A vs B\<close> and a
  URL; a watchfooty run where no endpoint of the API answers.
\<close>

definition ex_wf_env :: wf_env where
  "ex_wf_env =
     \<lparr>wf_client_get = (\<lambda>link. Response 200),
      wf_representable = ex_representable,
      api_cache = [\<lparr>matchId = ''1'', title = ''A vs B'', league = ''NBA - Regular'', ts = Some 100000000,
                     wf_poster = None\<rparr>,
                   \<lparr>matchId = ''2'', title = ''C vs D'', league = ''NBA'', ts = Some 100000000,
                     wf_poster = None\<rparr>],
      api_results = [],
      wf_resolve = (\<lambda>i ev. if i = 1 then \<lparr>finish = Some (3, Returns (Some ''https://x/b.m3u8'')),
                                          on_cancel = Some (Raises CancelledError)\<rparr>
                             else \<lparr>finish = None, on_cancel = Some (Raises CancelledError)\<rparr>),
      get_tvg_info = (\<lambda>sport ev. (None, Link ''pic''))\<rparr>"

definition ex_wf_entry :: "string option \<Rightarrow> entry" where
  "ex_wf_entry u = \<lparr>url = u, logo = Link ''pic'', base = ''https://www.watchfooty.cc'',
     timestamp = 100000, tvg_id = ''Live.Event.us'', href = None\<rparr>"

definition ex_fstv_env :: fstv_env where
  "ex_fstv_env =
     \<lparr>fs_client_get = (\<lambda>link. Response 200),
      fs_page = (\<lambda>link. ex_page),
      fs_resolve = (\<lambda>i ev. \<lparr>finish = None, on_cancel = Some (Raises CancelledError)\<rparr>),
      fs_info = (\<lambda>sport. (None, Link ''pic''))\<rparr>"

definition ex_wf_env_down :: wf_env where
  "ex_wf_env_down = ex_wf_env\<lparr>api_cache := [], api_results := [[], [], [], [], [], [], [], []]\<rparr>"

definition ex_wf_event :: "string \<Rightarrow> string \<Rightarrow> event" where
  "ex_wf_event n m = \<lparr>ev_sport = ''NBA'', ev_event = n,
     ev_link = Urljoin ''https://www.watchfooty.cc'' (''stream/'' @ m), ev_logo = None,
     ev_timestamp = 100000\<rparr>"

definition ex_wf_env_twice :: wf_env where
  "ex_wf_env_twice = ex_wf_env
     \<lparr>api_cache := [\<lparr>matchId = ''1'', title = ''A vs B'', league = ''NBA - Regular'',
                       ts = Some 100000000, wf_poster = None\<rparr>,
                     \<lparr>matchId = ''2'', title = ''A vs B'', league = ''NBA'',
                       ts = Some 100000000, wf_poster = None\<rparr>]\<rparr>"



section \<open>Cache store: TTL\<close>

text \<open>
  C4.  For a store with TTL \<open>exp\<close>, \<open>load\<close> returns a stored entry exactly when its
  age (now minus its timestamp) is strictly less than \<open>exp\<close>; a missing or a corrupt
  file gives the empty map.
\<close>

theorem load_ttl:
  "(load (c\<lparr>store := Snapshot m\<rparr>) now k = Some e
      \<longleftrightarrow> m k = Some e \<and> age now e < exp c)
   \<and> load (c\<lparr>store := Missing\<rparr>) now = Map.empty
   \<and> load (c\<lparr>store := Corrupt\<rparr>) now = Map.empty"
  by (auto simp: load_def split: option.splits)

theorem load_ttl_witness:
  "load \<lparr>exp = 3600, store = Snapshot [''k'' \<mapsto> \<lparr>url = Some ''u'', logo = Link [], base = [],
          timestamp = 0, tvg_id = [], href = None\<rparr>]\<rparr> 3599 ''k''
     = Some \<lparr>url = Some ''u'', logo = Link [], base = [], timestamp = 0, tvg_id = [], href = None\<rparr>
   \<and> load \<lparr>exp = 3600, store = Snapshot [''k'' \<mapsto> \<lparr>url = Some ''u'', logo = Link [], base = [],
          timestamp = 0, tvg_id = [], href = None\<rparr>]\<rparr> 3601 ''k'' = None
   \<and> load \<lparr>exp = 3600, store = Missing\<rparr> 3601 = Map.empty"
  using load_ttl [where c = "\<lparr>exp = 3600, store = Missing\<rparr>" and now = 3599 and k = "''k''"
      and m = "[''k'' \<mapsto> \<lparr>url = Some ''u'', logo = Link [], base = [], timestamp = 0, tvg_id = [], href = None\<rparr>]"
      and e = "\<lparr>url = Some ''u'', logo = Link [], base = [], timestamp = 0, tvg_id = [], href = None\<rparr>"]
  by (simp add: load_def age_def)

section \<open>Aggregator: channel numbering\<close>

lemma chnos_append: "chnos (xs @ ys) = chnos xs @ chnos ys"
  by (induction xs rule: chnos.induct) auto

lemma names_append: "names (xs @ ys) = names xs @ names ys"
  by (induction xs rule: names.induct) auto

lemma chnos_vlc: "chnos (vlc_block info @ ls) = chnos ls"
  by (simp add: vlc_block_def)

lemma names_vlc: "names (vlc_block info @ ls) = names ls"
  by (simp add: vlc_block_def)

lemma chnos_Text: "chnos (map Text xs) = []"
  by (induction xs) auto

lemma names_Text: "names (map Text xs) = []"
  by (induction xs) auto

lemma upt_shift: "[i ..< i + Suc n] = i # [Suc i ..< Suc i + n]"
  by (simp add: upt_conv_Cons del: upt_Suc)

lemma main_loop_live_chnos: "chnos (snd (main_loop b i xs)) = [i ..< i + length xs]"
proof (induction xs arbitrary: i)
  case Nil
  show ?case by simp
next
  case (Cons x xs)
  obtain event info where x: "x = (event, info)" by (cases x)
  have "chnos (snd (main_loop b i (x # xs))) = i # chnos (snd (main_loop b (Suc i) xs))"
    by (simp add: x chnos_vlc case_prod_beta Let_def)
  also have "\<dots> = i # [Suc i ..< Suc i + length xs]"
    by (simp only: Cons.IH)
  also have "\<dots> = [i ..< i + length (x # xs)]"
    using upt_shift [of _ "length xs"] by simp
  finally show ?case .
qed

lemma main_loop_combined_chnos:
  "chnos (fst (main_loop b i xs)) = [b + i ..< b + i + length xs]"
proof (induction xs arbitrary: i)
  case Nil
  show ?case by simp
next
  case (Cons x xs)
  obtain event info where x: "x = (event, info)" by (cases x)
  have "chnos (fst (main_loop b i (x # xs))) = (b + i) # chnos (fst (main_loop b (Suc i) xs))"
    by (simp add: x chnos_vlc case_prod_beta Let_def)
  also have "\<dots> = (b + i) # [Suc (b + i) ..< Suc (b + i) + length xs]"
    by (simp add: Cons.IH del: upt_Suc)
  also have "\<dots> = [b + i ..< b + i + length (x # xs)]"
    using upt_shift [of _ "length xs"] by simp
  finally show ?case .
qed

lemma main_loop_names:
  "names (fst (main_loop b i xs)) = map fst xs \<and> names (snd (main_loop b i xs)) = map fst xs"
  by (induction xs arbitrary: i) (auto simp: names_vlc case_prod_beta Let_def)

lemma fold_max_Max: "fold max ns (n::nat) = Max (set (n # ns))"
  by (simp only: Max.set_eq_fold)

lemma load_base_max: "snd (load_base data) = base_max data"
  by (auto simp: load_base_def base_max_def fold_max_Max Let_def split: list.splits)


lemma names_sorted_distinct:
  "distinct (map fst xs) \<Longrightarrow>
     sorted (map fst (sort_key fst xs)) \<and> distinct (map fst (sort_key fst xs))
     \<and> set (map fst (sort_key fst xs)) = fst ` set xs"
  by (simp add: distinct_map)

text \<open>
  C6.  For a base playlist with maximum channel number \<open>base_max\<close> (0 when it has
  none) and a merged dict of N entries, \<open>main\<close> emits the entries in sorted key order,
  numbers the live-only playlist exactly 1..N and the combined playlist exactly
  \<open>base_max + 1 .. base_max + N\<close>.
\<close>

theorem main_merge_numbering:
  assumes "distinct (map fst additions)"
  shows "chnos (snd (main_merge data additions)) = [1 ..< 1 + length additions]
    \<and> chnos (fst (main_merge data additions))
        = [base_max data + 1 ..< base_max data + 1 + length additions]
    \<and> names (snd (main_merge data additions)) = map fst (sort_key fst additions)
    \<and> names (fst (main_merge data additions)) = map fst (sort_key fst additions)
    \<and> sorted (map fst (sort_key fst additions))
    \<and> distinct (map fst (sort_key fst additions))
    \<and> set (map fst (sort_key fst additions)) = fst ` set additions"
proof -
  obtain lines where lb: "load_base data = (lines, base_max data)"
    using load_base_max [of data] by (cases "load_base data") simp
  let ?r = "main_loop (base_max data) 1 (sort_key fst additions)"
  have m: "main_merge data additions = (map Text lines @ fst ?r, snd ?r)"
    by (simp add: main_merge_def lb case_prod_beta)
  have l: "chnos (snd ?r) = [1 ..< 1 + length additions]"
    using main_loop_live_chnos [of "base_max data" 1 "sort_key fst additions"] by simp
  have c: "chnos (fst ?r) = [base_max data + 1 ..< base_max data + 1 + length additions]"
    using main_loop_combined_chnos [of "base_max data" 1 "sort_key fst additions"] by simp
  have n: "names (fst ?r) = map fst (sort_key fst additions)"
      "names (snd ?r) = map fst (sort_key fst additions)"
    using main_loop_names [of "base_max data" 1 "sort_key fst additions"] by simp_all
  show ?thesis
    using names_sorted_distinct [OF assms]
    by (simp only: m fst_conv snd_conv chnos_append names_append chnos_Text names_Text
        append_Nil l c n simp_thms)
qed

theorem main_merge_numbering_witness:
  "distinct (map fst [(''[NFL] b (PPV)'', ex_entry ''u1''), (''[NBA] a (PPV)'', ex_entry ''u2'')])
   \<and> chnos (snd (main_merge ''x tvg-chno=\"5\" y''
        [(''[NFL] b (PPV)'', ex_entry ''u1''), (''[NBA] a (PPV)'', ex_entry ''u2'')])) = [1, 2]
   \<and> chnos (fst (main_merge ''x tvg-chno=\"5\" y''
        [(''[NFL] b (PPV)'', ex_entry ''u1''), (''[NBA] a (PPV)'', ex_entry ''u2'')])) = [6, 7]
   \<and> names (snd (main_merge ''x tvg-chno=\"5\" y''
        [(''[NFL] b (PPV)'', ex_entry ''u1''), (''[NBA] a (PPV)'', ex_entry ''u2'')]))
      = [''[NBA] a (PPV)'', ''[NFL] b (PPV)'']"
proof -
  have d: "distinct (map fst [(''[NFL] b (PPV)'', ex_entry ''u1''), (''[NBA] a (PPV)'', ex_entry ''u2'')])"
    by simp
  have b: "base_max ''x tvg-chno=\"5\" y'' = 5"
    by code_simp
  have s: "map fst (sort_key fst [(''[NFL] b (PPV)'', ex_entry ''u1''), (''[NBA] a (PPV)'', ex_entry ''u2'')])
        = [''[NBA] a (PPV)'', ''[NFL] b (PPV)'']"
    by code_simp
  show ?thesis
    using main_merge_numbering [OF d, of "''x tvg-chno=\"5\" y''"] d
    by (simp add: b s upt_conv_Cons)
qed

section \<open>Discovery: cached keys are excluded\<close>









section \<open>Mirror selection\<close>

lemma get_base_first_healthy:
  assumes "\<forall>m \<in> set mirrors. \<forall>e. client_get m \<noteq> GetRaises e"
  shows "get_base client_get mirrors
    = List.find (\<lambda>m. check_status client_get m = Inr True) mirrors"
  using assms
proof (induction mirrors)
  case Nil
  show ?case by (simp add: get_base_def)
next
  case (Cons m ms)
  then have ih: "get_base client_get ms
      = List.find (\<lambda>m. check_status client_get m = Inr True) ms"
    by simp
  from Cons.prems have "\<exists>b. check_status client_get m = Inr b"
    by (cases "client_get m") (auto simp: check_status_def)
  then obtain b where b: "check_status client_get m = Inr b" ..
  show ?case
  proof (cases b)
    case True
    with b show ?thesis by (simp add: get_base_def success_truthy_def)
  next
    case False
    with b have "get_base client_get (m # ms) = get_base client_get ms"
      by (simp add: get_base_def success_truthy_def)
    with b False ih show ?thesis by simp
  qed
qed

text \<open>
  C5.  \<open>get_base\<close> should return the first mirror, in input order, whose probe
  succeeded, and \<open>None\<close> when every probe fails.  Here the probe of the first mirror
  raises an exception that \<open>check_status\<close> does not catch and the second mirror is
  down: no probe succeeded, and \<open>get_base\<close> returns the first mirror, because
  \<open>gather\<close> hands the exception object to \<open>if success\<close>.
\<close>

theorem get_base_exception_selected:
  "check_status ex_client_get ''https://a:x'' = Inl (OtherError ''InvalidURL'')
   \<and> check_status ex_client_get ''https://b'' = Inr False
   \<and> get_base ex_client_get [''https://a:x'', ''https://b''] = Some ''https://a:x''
   \<and> get_base ex_client_get [''https://a:x'', ''https://b'', ''https://c''] = Some ''https://a:x''"
  by (simp add: get_base_def check_status_def ex_client_get_def success_truthy_def)

section \<open>Bounded resolution\<close>

lemma wait_for_before:
  "finish fn = Some (d, out) \<Longrightarrow> d < timeout \<Longrightarrow>
     wait_for fn timeout = Some (Finished out, out, [WaitFor])"
  by (simp add: wait_for_def expired_def)

lemma wait_for_expired:
  "expired fn timeout \<Longrightarrow>
     wait_for fn timeout =
       (case on_cancel fn of
          None \<Rightarrow> None
        | Some (Returns v) \<Rightarrow>
            Some (Finished (Returns v), Returns v, [WaitFor, WaitForCancel, WaitForAwait])
        | Some (Raises e) \<Rightarrow>
            Some (Finished (Raises e), Raises (if e = CancelledError then TimeoutError else e),
                  [WaitFor, WaitForCancel, WaitForAwait]))"
  by (simp add: wait_for_def)

lemma not_expired: "\<not> expired fn timeout \<Longrightarrow> \<exists>d out. finish fn = Some (d, out) \<and> d < timeout"
  by (auto simp: expired_def split: option.splits)

lemma safe_process_before:
  assumes "finish fn = Some (d, out)" "d < timeout"
  shows "safe_process fn n timeout =
     Some (case out of
        Returns v \<Rightarrow>
          \<lparr>sp_result = Inr (Some v), sp_log = [], sp_task = Finished out,
            sp_ops = [CreateTask, WaitFor]\<rparr>
      | Raises e \<Rightarrow>
          if e = TimeoutError then
            \<lparr>sp_result = Inr None, sp_log = [(WARNING, n), (DEBUG, n)], sp_task = Finished out,
              sp_ops = [CreateTask, WaitFor, Cancel, Await]\<rparr>
          else if e = CancelledError then
            \<lparr>sp_result = Inl e, sp_log = [], sp_task = Finished out,
              sp_ops = [CreateTask, WaitFor]\<rparr>
          else
            \<lparr>sp_result = Inr None, sp_log = [(ERROR, n)], sp_task = Finished out,
              sp_ops = [CreateTask, WaitFor]\<rparr>)"
  by (cases out)
    (simp_all add: safe_process_def wait_for_before [OF assms] task_cancel_def await_task_def
      is_Exception_def)

lemma safe_process_expired:
  assumes "expired fn timeout"
  shows "safe_process fn n timeout =
     (case on_cancel fn of
        None \<Rightarrow> None
      | Some (Returns v) \<Rightarrow>
          Some \<lparr>sp_result = Inr (Some v), sp_log = [], sp_task = Finished (Returns v),
                sp_ops = [CreateTask, WaitFor, WaitForCancel, WaitForAwait]\<rparr>
      | Some (Raises e) \<Rightarrow>
          if e = CancelledError then
            Some \<lparr>sp_result = Inr None, sp_log = [(WARNING, n)], sp_task = Finished (Raises e),
                  sp_ops = [CreateTask, WaitFor, WaitForCancel, WaitForAwait, Cancel, Await]\<rparr>
          else if e = TimeoutError then
            Some \<lparr>sp_result = Inr None, sp_log = [(WARNING, n), (DEBUG, n)],
                  sp_task = Finished (Raises e),
                  sp_ops = [CreateTask, WaitFor, WaitForCancel, WaitForAwait, Cancel, Await]\<rparr>
          else
            Some \<lparr>sp_result = Inr None, sp_log = [(ERROR, n)], sp_task = Finished (Raises e),
                  sp_ops = [CreateTask, WaitFor, WaitForCancel, WaitForAwait]\<rparr>)"
proof (cases "on_cancel fn")
  case None
  then show ?thesis
    by (simp add: safe_process_def wait_for_expired [OF assms])
next
  case (Some out)
  then show ?thesis
    by (cases out)
      (simp_all add: safe_process_def wait_for_expired [OF assms] task_cancel_def await_task_def
        is_Exception_def)
qed

text \<open>
  C2, as the code has it.  \<open>safe_process\<close> returns the result of \<open>fn\<close> when \<open>fn\<close>
  ends before the deadline.  When \<open>fn\<close> raises before the deadline, it returns
  \<open>None\<close> and logs an error, except that a \<open>TimeoutError\<close> raised by \<open>fn\<close> is
  logged as a timeout (a warning, then a debug line) and a \<open>CancelledError\<close> is
  raised to the caller.  When the deadline expires and the cancelled task ends with an
  exception, it returns \<open>None\<close>: with a warning for \<open>CancelledError\<close>, the ordinary
  case, and with an error when the clean-up of the task raised something else; when the
  task catches the cancellation and returns a value, that value is returned; when the
  cancelled task never ends, \<open>safe_process\<close> does not return.
\<close>

theorem safe_process_result:
  "(finish fn = Some (d, Returns v) \<and> d < timeout \<longrightarrow>
      (\<exists>r. safe_process fn n timeout = Some r \<and> sp_result r = Inr (Some v) \<and> sp_log r = []))
   \<and> (finish fn = Some (d, Raises e) \<and> d < timeout \<longrightarrow>
      (\<exists>r. safe_process fn n timeout = Some r
         \<and> sp_result r = (if e = CancelledError then Inl CancelledError else Inr None)
         \<and> sp_log r = (if e = TimeoutError then [(WARNING, n), (DEBUG, n)]
                       else if e = CancelledError then [] else [(ERROR, n)])))
   \<and> (expired fn timeout \<and> on_cancel fn = Some (Raises e) \<longrightarrow>
      (\<exists>r. safe_process fn n timeout = Some r \<and> sp_result r = Inr None
         \<and> sp_log r = (if e = CancelledError then [(WARNING, n)]
                       else if e = TimeoutError then [(WARNING, n), (DEBUG, n)]
                       else [(ERROR, n)])))
   \<and> (expired fn timeout \<and> on_cancel fn = Some (Returns v) \<longrightarrow>
      (\<exists>r. safe_process fn n timeout = Some r \<and> sp_result r = Inr (Some v) \<and> sp_log r = []))
   \<and> (expired fn timeout \<and> on_cancel fn = None \<longrightarrow> safe_process fn n timeout = None)"
proof (intro conjI impI; elim conjE)
  assume "finish fn = Some (d, Returns v)" "d < timeout"
  from safe_process_before [OF this, of n]
  show "\<exists>r. safe_process fn n timeout = Some r \<and> sp_result r = Inr (Some v) \<and> sp_log r = []"
    by simp
next
  assume "finish fn = Some (d, Raises e)" "d < timeout"
  from safe_process_before [OF this, of n]
  show "\<exists>r. safe_process fn n timeout = Some r
         \<and> sp_result r = (if e = CancelledError then Inl CancelledError else Inr None)
         \<and> sp_log r = (if e = TimeoutError then [(WARNING, n), (DEBUG, n)]
                       else if e = CancelledError then [] else [(ERROR, n)])"
    by simp
next
  assume "expired fn timeout" "on_cancel fn = Some (Raises e)"
  with safe_process_expired [of fn timeout n]
  show "\<exists>r. safe_process fn n timeout = Some r \<and> sp_result r = Inr None
         \<and> sp_log r = (if e = CancelledError then [(WARNING, n)]
                       else if e = TimeoutError then [(WARNING, n), (DEBUG, n)]
                       else [(ERROR, n)])"
    by simp
next
  assume "expired fn timeout" "on_cancel fn = Some (Returns v)"
  with safe_process_expired [of fn timeout n]
  show "\<exists>r. safe_process fn n timeout = Some r \<and> sp_result r = Inr (Some v) \<and> sp_log r = []"
    by simp
next
  assume "expired fn timeout" "on_cancel fn = None"
  with safe_process_expired [of fn timeout n]
  show "safe_process fn n timeout = None"
    by simp
qed

theorem safe_process_result_witness:
  "(\<exists>r. safe_process \<lparr>finish = Some (3, Returns ''u''), on_cancel = Some (Raises CancelledError)\<rparr> 1 15 = Some r
        \<and> sp_result r = Inr (Some ''u'') \<and> sp_log r = [])
   \<and> (\<exists>r. safe_process \<lparr>finish = Some (3, Raises ValueError :: string outcome),
               on_cancel = Some (Raises CancelledError)\<rparr> 1 15 = Some r
        \<and> sp_result r = Inr None \<and> sp_log r = [(ERROR, 1)])
   \<and> (\<exists>r. safe_process \<lparr>finish = (None :: (nat \<times> string outcome) option),
               on_cancel = Some (Raises CancelledError)\<rparr> 1 15 = Some r
        \<and> sp_result r = Inr None \<and> sp_log r = [(WARNING, 1)])
   \<and> (\<exists>r. safe_process \<lparr>finish = None, on_cancel = Some (Returns ''late'')\<rparr> 1 15 = Some r
        \<and> sp_result r = Inr (Some ''late'') \<and> sp_log r = [])
   \<and> safe_process \<lparr>finish = (None :: (nat \<times> string outcome) option), on_cancel = None\<rparr> 1 15 = None"
  using safe_process_result [of "\<lparr>finish = Some (3, Returns ''u''), on_cancel = Some (Raises CancelledError)\<rparr>"
      3 "''u''" 15 1 ValueError]
    safe_process_result [of "\<lparr>finish = Some (3, Raises ValueError :: string outcome),
               on_cancel = Some (Raises CancelledError)\<rparr>" 3 "''u''" 15 1 ValueError]
    safe_process_result [of "\<lparr>finish = (None :: (nat \<times> string outcome) option),
               on_cancel = Some (Raises CancelledError)\<rparr>" 3 "''u''" 15 1 CancelledError]
    safe_process_result [of "\<lparr>finish = None, on_cancel = Some (Returns ''late'')\<rparr>"
      3 "''late''" 15 1 ValueError]
    safe_process_result [of "\<lparr>finish = (None :: (nat \<times> string outcome) option), on_cancel = None\<rparr>"
      3 "''u''" 15 1 ValueError]
  by (simp add: expired_def)

text \<open>
  As it is written the property fails: a \<open>CancelledError\<close> raised by \<open>fn\<close> reaches the
  caller; an expiry is logged as an error when the clean-up of the cancelled task raises;
  a \<open>TimeoutError\<close> raised by \<open>fn\<close> before the deadline is logged as a timeout; and a
  task that catches the cancellation has its value returned after the deadline.
\<close>

theorem safe_process_propagates_cancelled:
  "map_option sp_result (safe_process \<lparr>finish = Some (3, Raises CancelledError :: string outcome),
        on_cancel = Some (Raises CancelledError)\<rparr> 1 15) = Some (Inl CancelledError)
   \<and> map_option sp_log (safe_process \<lparr>finish = (None :: (nat \<times> string outcome) option),
        on_cancel = Some (Raises ValueError)\<rparr> 1 15) = Some [(ERROR, 1)]
   \<and> map_option sp_log (safe_process \<lparr>finish = Some (3, Raises TimeoutError :: string outcome),
        on_cancel = Some (Raises CancelledError)\<rparr> 1 15) = Some [(WARNING, 1), (DEBUG, 1)]
   \<and> map_option sp_result (safe_process \<lparr>finish = None, on_cancel = Some (Returns ''late'')\<rparr> 1 15)
        = Some (Inr (Some ''late''))"
  by (simp add: safe_process_def wait_for_def expired_def task_cancel_def await_task_def
      is_Exception_def)

text \<open>
  C3.  When the deadline expires, the task that \<open>safe_process\<close> created for \<open>fn\<close>
  is cancelled and awaited until it has ended, before \<open>safe_process\<close> returns:
  \<open>asyncio.wait_for\<close> cancels the task at the deadline and waits for it, and the handler
  of \<open>safe_process\<close> calls \<open>task.cancel()\<close> and awaits the task once more when
  \<open>wait_for\<close> raised \<open>TimeoutError\<close>.  Whenever \<open>safe_process\<close> returns, on any
  path, the task has ended; while the cancelled task has not ended, \<open>safe_process\<close>
  is still awaiting it and has not returned.  The trace \<open>sp_ops\<close> lists what was done
  to the task, in order, on each path.
\<close>

theorem safe_process_no_pending_task:
  "(\<forall>r. safe_process fn n timeout = Some r \<longrightarrow> (\<exists>out. sp_task r = Finished out))
   \<and> (safe_process fn n timeout = None \<longleftrightarrow> expired fn timeout \<and> on_cancel fn = None)
   \<and> (expired fn timeout \<and> on_cancel fn = Some out \<longrightarrow>
        (\<exists>r. safe_process fn n timeout = Some r \<and> sp_task r = Finished out
           \<and> sp_ops r = [CreateTask, WaitFor, WaitForCancel, WaitForAwait]
                @ (if out = Raises CancelledError \<or> out = Raises TimeoutError
                   then [Cancel, Await] else [])))
   \<and> (finish fn = Some (d, out) \<and> d < timeout \<longrightarrow>
        (\<exists>r. safe_process fn n timeout = Some r \<and> sp_task r = Finished out
           \<and> sp_ops r = [CreateTask, WaitFor]
                @ (if out = Raises TimeoutError then [Cancel, Await] else [])))"
proof -
  have c: "\<exists>r. safe_process fn n timeout = Some r \<and> sp_task r = Finished out
           \<and> sp_ops r = [CreateTask, WaitFor, WaitForCancel, WaitForAwait]
                @ (if out = Raises CancelledError \<or> out = Raises TimeoutError
                   then [Cancel, Await] else [])"
    if "expired fn timeout" "on_cancel fn = Some out" for out
    using safe_process_expired [OF that(1), of n] that(2)
    by (cases out) auto
  have b: "\<exists>r. safe_process fn n timeout = Some r \<and> sp_task r = Finished out
           \<and> sp_ops r = [CreateTask, WaitFor]
                @ (if out = Raises TimeoutError then [Cancel, Await] else [])"
    if "finish fn = Some (d, out)" "d < timeout" for d out
    using safe_process_before [OF that, of n]
    by (cases out) auto
  have n: "safe_process fn n timeout = None \<longleftrightarrow> expired fn timeout \<and> on_cancel fn = None"
  proof (cases "expired fn timeout")
    case True
    show ?thesis
    proof (cases "on_cancel fn")
      case None
      with True safe_process_expired [OF True, of n] show ?thesis by simp
    next
      case (Some out)
      with c [OF True Some] True show ?thesis by auto
    qed
  next
    case False
    with not_expired [OF False] b show ?thesis by fastforce
  qed
  have a: "\<forall>r. safe_process fn n timeout = Some r \<longrightarrow> (\<exists>out. sp_task r = Finished out)"
  proof (cases "expired fn timeout")
    case True
    show ?thesis
    proof (cases "on_cancel fn")
      case None
      with n True show ?thesis by simp
    next
      case (Some out)
      with c [OF True Some] show ?thesis by auto
    qed
  next
    case False
    with not_expired [OF False] b show ?thesis by fastforce
  qed
  from a n b c show ?thesis
    by blast
qed

theorem safe_process_no_pending_task_witness:
  "(\<exists>r. safe_process \<lparr>finish = (None :: (nat \<times> string outcome) option),
            on_cancel = Some (Raises CancelledError)\<rparr> 1 5 = Some r
       \<and> sp_ops r = [CreateTask, WaitFor, WaitForCancel, WaitForAwait, Cancel, Await]
       \<and> sp_task r = Finished (Raises CancelledError))
   \<and> (\<exists>r. safe_process \<lparr>finish = (None :: (nat \<times> string outcome) option),
            on_cancel = Some (Raises ValueError)\<rparr> 1 5 = Some r
       \<and> sp_ops r = [CreateTask, WaitFor, WaitForCancel, WaitForAwait]
       \<and> sp_task r = Finished (Raises ValueError))
   \<and> (\<exists>r. safe_process \<lparr>finish = Some (3, Returns ''u''), on_cancel = Some (Raises CancelledError)\<rparr> 1 5 = Some r
       \<and> sp_ops r = [CreateTask, WaitFor] \<and> sp_task r = Finished (Returns ''u''))"
  using safe_process_no_pending_task
    [of "\<lparr>finish = (None :: (nat \<times> string outcome) option),
            on_cancel = Some (Raises CancelledError)\<rparr>" 1 5 "Raises CancelledError" 3]
    safe_process_no_pending_task
    [of "\<lparr>finish = (None :: (nat \<times> string outcome) option),
            on_cancel = Some (Raises ValueError)\<rparr>" 1 5 "Raises ValueError" 3]
    safe_process_no_pending_task
    [of "\<lparr>finish = Some (3, Returns ''u''), on_cancel = Some (Raises CancelledError)\<rparr>" 1 5
      "Returns ''u''" 3]
  by (simp add: expired_def) blast

section \<open>Capture of the manifest request\<close>

lemma fold_capture_req:
  "fold capture_req reqs c
     = \<lparr>captured = captured c @ filter pattern_search reqs,
        got_one = (got_one c \<or> filter pattern_search reqs \<noteq> [])\<rparr>"
  by (induction reqs arbitrary: c) (auto simp: capture_req_def)

lemma captured_seen:
  "fold capture_req (wait_reqs run) (fold capture_req (goto_reqs run) \<lparr>captured = [], got_one = False\<rparr>)
     = \<lparr>captured = filter pattern_search (seen run),
        got_one = (filter pattern_search (seen run) \<noteq> [])\<rparr>"
  by (simp add: fold_capture_req seen_def)

lemma process_event_try_result:
  "pe_result (process_event_try run (Some l) n) =
     (case goto_step run of
        StepCancelled \<Rightarrow> Inl CancelledError
      | StepRaises \<Rightarrow> Inr None
      | StepDone \<Rightarrow>
          if filter pattern_search (seen run) = []
          then (if wait_cancelled run then Inl CancelledError else Inr None)
          else Inr (Some (hd (filter pattern_search (seen run)))))"
  by (simp add: process_event_try_def logged_def captured_seen Let_def split: step.splits)

lemma process_event_try_no_logger:
  "pe_result (process_event_try run None n) = Inl CancelledError
   \<or> pe_result (process_event_try run None n) = Inl AttributeError"
  by (simp add: process_event_try_def logged_def captured_seen Let_def split: step.splits)

lemma process_event_no_logger:
  "new_page run = StepDone \<Longrightarrow>
     pe_result (process_event run None n) = Inl CancelledError
     \<or> pe_result (process_event run None n) = Inl AttributeError"
  using process_event_try_no_logger [of run n]
  by (auto simp: process_event_def Let_def)

lemma wf_process_event_try_result:
  "pe_result (wf_process_event_try run n) =
     (case goto_step run of
        StepCancelled \<Rightarrow> Inl CancelledError
      | StepRaises \<Rightarrow> Inr None
      | StepDone \<Rightarrow>
          (case selector run of
             SelectorCancelled \<Rightarrow> Inl CancelledError
           | SelectorRaises \<Rightarrow> Inr None
           | SelectorTimeout \<Rightarrow> Inr None
           | HeaderText text \<Rightarrow>
               if search_count text = None \<or> search_count text = Some 0 then Inr None
               else if filter pattern_search (seen run) = []
                 then (if wait_cancelled run then Inl CancelledError else Inr None)
               else Inr (Some (last (filter pattern_search (seen run))))))"
  by (simp add: wf_process_event_try_def captured_seen Let_def
      split: step.splits selector_result.splits)

lemma hd_filter_in: "filter P xs \<noteq> [] \<Longrightarrow> hd (filter P xs) \<in> set xs \<and> P (hd (filter P xs))"
  using hd_in_set [of "filter P xs"] by auto

lemma last_filter_in: "filter P xs \<noteq> [] \<Longrightarrow> last (filter P xs) \<in> set xs \<and> P (last (filter P xs))"
  using last_in_set [of "filter P xs"] by auto

lemma process_event_result:
  "new_page run = StepDone \<Longrightarrow>
     pe_result (process_event run (Some l) n) = pe_result (process_event_try run (Some l) n)"
  by (simp add: process_event_def Let_def)

lemma wf_process_event_result:
  "new_page run = StepDone \<Longrightarrow>
     pe_result (wf_process_event run n) = pe_result (wf_process_event_try run n)"
  by (simp add: wf_process_event_def Let_def)

lemma process_event_Some:
  "pe_result (process_event run log n) = Inr (Some u) \<Longrightarrow>
     filter pattern_search (seen run) \<noteq> [] \<and> u = hd (filter pattern_search (seen run))"
proof (cases log)
  case None
  assume "pe_result (process_event run log n) = Inr (Some u)"
  with None show ?thesis
    by (auto simp: process_event_def process_event_try_def logged_def Let_def
        split: step.splits if_splits)
next
  case (Some l)
  assume "pe_result (process_event run log n) = Inr (Some u)"
  with Some show ?thesis
    by (auto simp: process_event_def process_event_try_result Let_def
        split: step.splits if_splits)
qed

lemma wf_process_event_Some:
  "pe_result (wf_process_event run n) = Inr (Some u) \<Longrightarrow>
     filter pattern_search (seen run) \<noteq> [] \<and> u = last (filter pattern_search (seen run))"
  by (auto simp: wf_process_event_def wf_process_event_try_result Let_def
      split: step.splits selector_result.splits if_splits)

text \<open>
  C7, as the code has it.  Take a call of \<open>process_event\<close> that is given a logger and
  gets its page.  If it returns a URL, the URL is among the requests the handler saw and
  matches the pattern: in lower case, the text before its first line feed contains
  \<open>.m3u8\<close> and neither \<open>amazonaws\<close> nor \<open>knitcdn\<close>; it is the first such request
  (the last one in watchfooty's variant).  When the navigation succeeds and a request
  matches, that URL is returned (in watchfooty's variant when the header also shows a
  positive number of links); when no request matches and the call is not cancelled, it
  returns \<open>None\<close>.  The only exception that leaves such a call is the
  \<open>CancelledError\<close> of a cancellation from outside.
\<close>

theorem process_event_captured:
  "(pe_result (process_event run log n) = Inr (Some u) \<longrightarrow>
      u \<in> set (seen run) \<and> pattern_search u \<and> u = hd (filter pattern_search (seen run)))
   \<and> (pe_result (wf_process_event wrun n) = Inr (Some u) \<longrightarrow>
      u \<in> set (seen wrun) \<and> pattern_search u \<and> u = last (filter pattern_search (seen wrun)))
   \<and> (new_page run = StepDone \<and> goto_step run = StepDone
        \<and> filter pattern_search (seen run) \<noteq> [] \<longrightarrow>
        pe_result (process_event run (Some l) n)
          = Inr (Some (hd (filter pattern_search (seen run)))))
   \<and> (new_page wrun = StepDone \<and> goto_step wrun = StepDone \<and> selector wrun = HeaderText text
        \<and> search_count text = Some c \<and> 0 < c \<and> filter pattern_search (seen wrun) \<noteq> [] \<longrightarrow>
        pe_result (wf_process_event wrun n)
          = Inr (Some (last (filter pattern_search (seen wrun)))))
   \<and> (new_page run = StepDone \<and> goto_step run \<noteq> StepCancelled
        \<and> filter pattern_search (seen run) = [] \<and> \<not> wait_cancelled run \<longrightarrow>
        pe_result (process_event run (Some l) n) = Inr None)
   \<and> (new_page wrun = StepDone \<and> goto_step wrun \<noteq> StepCancelled
        \<and> selector wrun \<noteq> SelectorCancelled
        \<and> filter pattern_search (seen wrun) = [] \<and> \<not> wait_cancelled wrun \<longrightarrow>
        pe_result (wf_process_event wrun n) = Inr None)
   \<and> (new_page run = StepDone \<and> pe_result (process_event run (Some l) n) = Inl e
        \<longrightarrow> e = CancelledError)
   \<and> (new_page wrun = StepDone \<and> pe_result (wf_process_event wrun n) = Inl e
        \<longrightarrow> e = CancelledError)
   \<and> (pattern_search u \<longleftrightarrow>
        contains ''.m3u8'' (lower (first_line u))
        \<and> \<not> contains ''amazonaws'' (lower (first_line u))
        \<and> \<not> contains ''knitcdn'' (lower (first_line u)))"
proof (intro conjI impI; (elim conjE)?)
  assume "pe_result (process_event run log n) = Inr (Some u)"
  from process_event_Some [OF this]
  show "u \<in> set (seen run)" "pattern_search u" "u = hd (filter pattern_search (seen run))"
    using hd_filter_in [of pattern_search "seen run"] by auto
next
  assume "pe_result (wf_process_event wrun n) = Inr (Some u)"
  from wf_process_event_Some [OF this]
  show "u \<in> set (seen wrun)" "pattern_search u" "u = last (filter pattern_search (seen wrun))"
    using last_filter_in [of pattern_search "seen wrun"] by auto
next
  assume "new_page run = StepDone" "goto_step run = StepDone"
    "filter pattern_search (seen run) \<noteq> []"
  then show "pe_result (process_event run (Some l) n)
          = Inr (Some (hd (filter pattern_search (seen run))))"
    by (simp add: process_event_result process_event_try_result)
next
  assume "new_page wrun = StepDone" "goto_step wrun = StepDone" "selector wrun = HeaderText text"
    "search_count text = Some c" "0 < c" "filter pattern_search (seen wrun) \<noteq> []"
  then show "pe_result (wf_process_event wrun n)
          = Inr (Some (last (filter pattern_search (seen wrun))))"
    by (simp add: wf_process_event_result wf_process_event_try_result)
next
  assume "new_page run = StepDone" "goto_step run \<noteq> StepCancelled"
    "filter pattern_search (seen run) = []" "\<not> wait_cancelled run"
  then show "pe_result (process_event run (Some l) n) = Inr None"
    by (simp add: process_event_result process_event_try_result split: step.splits)
next
  assume "new_page wrun = StepDone" "goto_step wrun \<noteq> StepCancelled"
    "selector wrun \<noteq> SelectorCancelled"
    "filter pattern_search (seen wrun) = []" "\<not> wait_cancelled wrun"
  then show "pe_result (wf_process_event wrun n) = Inr None"
    by (simp add: wf_process_event_result wf_process_event_try_result
        split: step.splits selector_result.splits)
next
  assume "new_page run = StepDone" "pe_result (process_event run (Some l) n) = Inl e"
  then show "e = CancelledError"
    by (auto simp: process_event_result process_event_try_result split: step.splits if_splits)
next
  assume "new_page wrun = StepDone" "pe_result (wf_process_event wrun n) = Inl e"
  then show "e = CancelledError"
    by (auto simp: wf_process_event_result wf_process_event_try_result
        split: step.splits selector_result.splits if_splits)
next
  show "pattern_search u \<longleftrightarrow>
        contains ''.m3u8'' (lower (first_line u))
        \<and> \<not> contains ''amazonaws'' (lower (first_line u))
        \<and> \<not> contains ''knitcdn'' (lower (first_line u))"
    by (auto simp: pattern_search_def invalids_def)
qed

lemma ex_search:
  "pattern_search ''https://x/A.M3U8''" "pattern_search ''https://x/b.m3u8''"
  "\<not> pattern_search ''https://x/a.js''" "\<not> pattern_search ''https://x.amazonaws.com/a.m3u8''"
  by code_simp+

lemma ex_count: "search_count ''Stream Links (2)'' = Some 2"
  by code_simp

theorem process_event_captured_witness:
  "pe_result (process_event (ex_run [''https://x/a.js'', ''https://x.amazonaws.com/a.m3u8'',
       ''https://x/A.M3U8'', ''https://x/b.m3u8'']) (Some Logger) 1) = Inr (Some ''https://x/A.M3U8'')
   \<and> pe_result (wf_process_event (ex_wf_run [''https://x/a.js'',
       ''https://x.amazonaws.com/a.m3u8'', ''https://x/A.M3U8'', ''https://x/b.m3u8'']) 1)
       = Inr (Some ''https://x/b.m3u8'')
   \<and> pattern_search ''https://x/A.M3U8''
   \<and> pe_result (process_event (ex_run [''https://x/a.js'']) (Some Logger) 1) = Inr None
   \<and> pe_result (wf_process_event (ex_wf_run [''https://x/a.js'']) 1) = Inr None"
proof -
  let ?reqs = "[''https://x/a.js'', ''https://x.amazonaws.com/a.m3u8'',
       ''https://x/A.M3U8'', ''https://x/b.m3u8'']"
  let ?none = "[''https://x/a.js'']"
  have f: "filter pattern_search (seen (ex_run ?reqs)) = [''https://x/A.M3U8'', ''https://x/b.m3u8'']"
    "filter pattern_search (seen (ex_wf_run ?reqs)) = [''https://x/A.M3U8'', ''https://x/b.m3u8'']"
    "filter pattern_search (seen (ex_run ?none)) = []"
    "filter pattern_search (seen (ex_wf_run ?none)) = []"
    by (simp_all add: ex_run_def ex_wf_run_def seen_def ex_search)
  have r: "new_page (ex_run ?reqs) = StepDone" "goto_step (ex_run ?reqs) = StepDone"
    "new_page (ex_wf_run ?reqs) = StepDone" "goto_step (ex_wf_run ?reqs) = StepDone"
    "selector (ex_wf_run ?reqs) = HeaderText ''Stream Links (2)''"
    "new_page (ex_run ?none) = StepDone"
    "goto_step (ex_run ?none) = StepDone"
    "\<not> wait_cancelled (ex_run ?none)"
    "new_page (ex_wf_run ?none) = StepDone"
    "goto_step (ex_wf_run ?none) = StepDone"
    "selector (ex_wf_run ?none) = HeaderText ''Stream Links (2)''"
    "\<not> wait_cancelled (ex_wf_run ?none)"
    by (simp_all add: ex_run_def ex_wf_run_def)
  from process_event_captured [of "ex_run ?reqs" "Some Logger" 1 "''https://x/A.M3U8''"
      "ex_wf_run ?reqs" Logger "''Stream Links (2)''" 2 CancelledError]
    process_event_captured [of "ex_run ?none" "Some Logger" 1 "''https://x/A.M3U8''"
      "ex_wf_run ?none" Logger "''Stream Links (2)''" 2 CancelledError]
    f r ex_count
  show ?thesis by (simp add: ex_search)
qed

text \<open>
  Read with the letter case as written, the property fails for a request whose URL has
  \<open>.M3U8\<close> in upper case: \<open>process_event\<close> returns it, and it does not contain
  \<open>.m3u8\<close>.
\<close>

theorem process_event_upper_case:
  "pe_result (process_event (ex_run [''https://x/A.M3U8'']) (Some Logger) 1)
     = Inr (Some ''https://x/A.M3U8'')
   \<and> \<not> contains ''.m3u8'' ''https://x/A.M3U8''"
  by (simp add: process_event_def process_event_try_result Let_def ex_run_def seen_def ex_search)

section \<open>Capture: the page is closed on every path\<close>

lemma process_event_try_ops:
  "RemoveListener \<notin> set (pe_ops (process_event_try run log n))
   \<and> Close \<notin> set (pe_ops (process_event_try run log n))
   \<and> NewPage \<notin> set (pe_ops (process_event_try run log n))
   \<and> On \<notin> set (pe_ops (process_event_try run log n))"
  by (cases log) (simp_all add: process_event_try_def logged_def Let_def split: step.splits)

lemma wf_process_event_try_ops:
  "RemoveListener \<notin> set (pe_ops (wf_process_event_try run n))
   \<and> Close \<notin> set (pe_ops (wf_process_event_try run n))
   \<and> NewPage \<notin> set (pe_ops (wf_process_event_try run n))
   \<and> On \<notin> set (pe_ops (wf_process_event_try run n))"
  by (simp add: wf_process_event_try_def Let_def split: step.splits selector_result.splits)

lemma process_event_ops_counts:
  "count_list (pe_ops (process_event run log n)) Close
     = count_list (pe_ops (process_event run log n)) NewPage
   \<and> count_list (pe_ops (process_event run log n)) RemoveListener
     = count_list (pe_ops (process_event run log n)) On"
  using process_event_try_ops [of run log n]
  by (simp add: process_event_def Let_def split: step.splits)

lemma wf_process_event_ops_counts:
  "count_list (pe_ops (wf_process_event run n)) Close
     = count_list (pe_ops (wf_process_event run n)) NewPage
   \<and> count_list (pe_ops (wf_process_event run n)) RemoveListener
     = count_list (pe_ops (wf_process_event run n)) On"
  using wf_process_event_try_ops [of run n]
  by (simp add: wf_process_event_def Let_def split: step.splits)

lemma process_event_calls:
  "count_list (concat (map (\<lambda>run. pe_ops (process_event run log n)) runs)) NewPage
     = count_list (concat (map (\<lambda>run. pe_ops (process_event run log n)) runs)) Close
   \<and> count_list (concat (map (\<lambda>run. pe_ops (process_event run log n)) runs)) On
     = count_list (concat (map (\<lambda>run. pe_ops (process_event run log n)) runs)) RemoveListener"
proof (induction runs)
  case Nil
  show ?case by simp
next
  case (Cons r runs)
  with process_event_ops_counts [of r log n] show ?case
    by simp
qed

text \<open>
  C8.  On every path of \<open>process_event\<close> and of watchfooty's variant (a URL captured,
  the inner timeout, an exception during navigation or waiting, and a cancellation from
  outside as well), with or without a logger, the last two things done are to remove the
  request listener and to close the page; the listener installed is removed once and the
  page opened is closed once.  A call that gets no page installs no listener and has
  nothing to close, so a sequence of calls closes as many pages as it opened.
\<close>

theorem process_event_cleanup:
  "(new_page run = StepDone \<longrightarrow>
      pe_ops (process_event run log n)
        = [NewPage, On] @ pe_ops (process_event_try run log n) @ [RemoveListener, Close]
      \<and> count_list (pe_ops (process_event run log n)) Close = 1
      \<and> count_list (pe_ops (process_event run log n)) RemoveListener = 1
      \<and> count_list (pe_ops (process_event run log n)) NewPage = 1
      \<and> count_list (pe_ops (process_event run log n)) On = 1)
   \<and> (new_page wrun = StepDone \<longrightarrow>
      pe_ops (wf_process_event wrun n)
        = [NewPage, On] @ pe_ops (wf_process_event_try wrun n) @ [RemoveListener, Close]
      \<and> count_list (pe_ops (wf_process_event wrun n)) Close = 1
      \<and> count_list (pe_ops (wf_process_event wrun n)) RemoveListener = 1
      \<and> count_list (pe_ops (wf_process_event wrun n)) NewPage = 1
      \<and> count_list (pe_ops (wf_process_event wrun n)) On = 1)
   \<and> count_list (pe_ops (process_event run log n)) Close
       = count_list (pe_ops (process_event run log n)) NewPage
   \<and> count_list (pe_ops (process_event run log n)) RemoveListener
       = count_list (pe_ops (process_event run log n)) On
   \<and> count_list (pe_ops (wf_process_event wrun n)) Close
       = count_list (pe_ops (wf_process_event wrun n)) NewPage
   \<and> count_list (pe_ops (wf_process_event wrun n)) RemoveListener
       = count_list (pe_ops (wf_process_event wrun n)) On
   \<and> count_list (concat (map (\<lambda>run. pe_ops (process_event run log n)) runs)) NewPage
       = count_list (concat (map (\<lambda>run. pe_ops (process_event run log n)) runs)) Close
   \<and> count_list (concat (map (\<lambda>run. pe_ops (process_event run log n)) runs)) On
       = count_list (concat (map (\<lambda>run. pe_ops (process_event run log n)) runs)) RemoveListener"
proof -
  have a: "new_page run = StepDone \<longrightarrow>
      pe_ops (process_event run log n)
        = [NewPage, On] @ pe_ops (process_event_try run log n) @ [RemoveListener, Close]
      \<and> count_list (pe_ops (process_event run log n)) Close = 1
      \<and> count_list (pe_ops (process_event run log n)) RemoveListener = 1
      \<and> count_list (pe_ops (process_event run log n)) NewPage = 1
      \<and> count_list (pe_ops (process_event run log n)) On = 1"
    using process_event_try_ops [of run log n]
    by (simp add: process_event_def Let_def)
  have b: "new_page wrun = StepDone \<longrightarrow>
      pe_ops (wf_process_event wrun n)
        = [NewPage, On] @ pe_ops (wf_process_event_try wrun n) @ [RemoveListener, Close]
      \<and> count_list (pe_ops (wf_process_event wrun n)) Close = 1
      \<and> count_list (pe_ops (wf_process_event wrun n)) RemoveListener = 1
      \<and> count_list (pe_ops (wf_process_event wrun n)) NewPage = 1
      \<and> count_list (pe_ops (wf_process_event wrun n)) On = 1"
    using wf_process_event_try_ops [of wrun n]
    by (simp add: wf_process_event_def Let_def)
  from a b process_event_calls [of log n runs] process_event_ops_counts [of run log n]
    wf_process_event_ops_counts [of wrun n]
  show ?thesis
    by (intro conjI) (simp_all only: simp_thms)
qed

theorem process_event_cleanup_witness:
  "pe_ops (process_event (ex_run [''https://x/b.m3u8'']) (Some Logger) 1)
     = [NewPage, On, Goto, RemoveListener, Close]
   \<and> pe_ops (process_event (ex_run []) (Some Logger) 1) = [NewPage, On, Goto, RemoveListener, Close]
   \<and> pe_ops (process_event ((ex_run [])\<lparr>goto_step := StepRaises\<rparr>) None 1)
     = [NewPage, On, Goto, RemoveListener, Close]
   \<and> pe_ops (wf_process_event ((ex_wf_run [])\<lparr>selector := SelectorTimeout\<rparr>) 1)
     = [NewPage, On, Goto, WaitForSelector, RemoveListener, Close]"
  using process_event_cleanup [of "ex_run [''https://x/b.m3u8'']" "Some Logger" 1
      "(ex_wf_run [])\<lparr>selector := SelectorTimeout\<rparr>" "[]"]
    process_event_cleanup [of "ex_run []" "Some Logger" 1
      "(ex_wf_run [])\<lparr>selector := SelectorTimeout\<rparr>" "[]"]
    process_event_cleanup [of "(ex_run [])\<lparr>goto_step := StepRaises\<rparr>" None 1
      "(ex_wf_run [])\<lparr>selector := SelectorTimeout\<rparr>" "[]"]
  by (simp add: process_event_try_def wf_process_event_try_def ex_run_def ex_wf_run_def Let_def
      capture_req_def logged_def ex_search)

section \<open>watchfooty: tombstones\<close>

lemma update_set:
  "(k', e') \<in> set (AList.update k v al) \<Longrightarrow> (k', e') = (k, v) \<or> (k', e') \<in> set al"
  by (induction al) (auto split: if_splits)

lemma dict_or_set:
  "(k, e) \<in> set (dict_or a b) \<Longrightarrow> (k, e) \<in> set a \<or> (k, e) \<in> set b"
proof (induction b arbitrary: a)
  case Nil
  then show ?case by (simp add: dict_or_def)
next
  case (Cons x b)
  obtain k' v' where x: "x = (k', v')" by (cases x)
  from Cons.prems have "(k, e) \<in> set (dict_or (AList.update k' v' a) b)"
    by (simp add: dict_or_def x)
  from Cons.IH [OF this] show ?case
    using update_set [of k e k' v' a] by (auto simp: x)
qed

lemma wf_loop_inv:
  "wf_loop env b i evs (u, c) = Some (Inr (u', c')) \<Longrightarrow>
     (\<forall>(k, e) \<in> set u. truthy (url e)) \<Longrightarrow>
     (\<forall>(k, e) \<in> set u'. truthy (url e))
     \<and> fst ` set c' = fst ` set c \<union> (\<lambda>ev. wf_key (ev_sport ev) (ev_event ev)) ` set evs"
proof (induction evs arbitrary: i u c)
  case Nil
  then show ?case by simp
next
  case (Cons ev evs)
  from Cons.prems(1) obtain r where r: "safe_process (wf_resolve env i ev) i 15 = Some r"
    by (auto split: option.splits)
  from Cons.prems(1) r obtain v where v: "sp_result r = Inr v"
    by (cases "sp_result r") auto
  define w where "w = (case v of Some (Some s) \<Rightarrow> Some s | _ \<Rightarrow> None)"
  define key where "key = wf_key (ev_sport ev) (ev_event ev)"
  define ent where "ent = \<lparr>url = w,
      logo = (case ev_logo ev of Some l \<Rightarrow> l | None \<Rightarrow> snd (get_tvg_info env (ev_sport ev) (ev_event ev))),
      base = b, timestamp = ev_timestamp ev,
      tvg_id = default_id (fst (get_tvg_info env (ev_sport ev) (ev_event ev))), href = None\<rparr>"
  define u1 where "u1 = (if truthy w then AList.update key ent u else u)"
  have step: "wf_loop env b (Suc i) evs (u1, AList.update key ent c) = Some (Inr (u', c'))"
    using Cons.prems(1) r v
    by (simp add: w_def key_def ent_def u1_def case_prod_beta Let_def split del: if_split cong: if_cong)
  have "url ent = w"
    by (simp add: ent_def)
  then have inv: "\<forall>(k, e) \<in> set u1. truthy (url e)"
    using Cons.prems(2) update_set [of _ _ key ent u] by (auto simp: u1_def)
  from Cons.IH [OF step inv] show ?case
    by (auto simp: dom_update key_def)
qed

lemma wf_loop_urls_distinct:
  "wf_loop env b i evs (u, c) = Some (Inr (u', c')) \<Longrightarrow> distinct (map fst u) \<Longrightarrow>
     distinct (map fst u')"
proof (induction evs arbitrary: i u c)
  case Nil
  then show ?case by simp
next
  case (Cons ev evs)
  from Cons.prems(1) obtain r where r: "safe_process (wf_resolve env i ev) i 15 = Some r"
    by (auto split: option.splits)
  from Cons.prems(1) r obtain v where v: "sp_result r = Inr v"
    by (cases "sp_result r") auto
  define w where "w = (case v of Some (Some s) \<Rightarrow> Some s | _ \<Rightarrow> None)"
  define key where "key = wf_key (ev_sport ev) (ev_event ev)"
  define ent where "ent = \<lparr>url = w,
      logo = (case ev_logo ev of Some l \<Rightarrow> l | None \<Rightarrow> snd (get_tvg_info env (ev_sport ev) (ev_event ev))),
      base = b, timestamp = ev_timestamp ev,
      tvg_id = default_id (fst (get_tvg_info env (ev_sport ev) (ev_event ev))), href = None\<rparr>"
  define u1 where "u1 = (if truthy w then AList.update key ent u else u)"
  have step: "wf_loop env b (Suc i) evs (u1, AList.update key ent c) = Some (Inr (u', c'))"
    using Cons.prems(1) r v
    by (simp add: w_def key_def ent_def u1_def case_prod_beta Let_def split del: if_split cong: if_cong)
  have "distinct (map fst u1)"
    using Cons.prems(2) by (simp add: u1_def distinct_update)
  from Cons.IH [OF step this] show ?case .
qed

lemma wf_events_excludes:
  "wf_events R b now K api = Inr evs \<Longrightarrow>
     \<forall>ev \<in> set evs. wf_key (ev_sport ev) (ev_event ev) \<notin> K"
proof (induction api arbitrary: evs)
  case Nil
  then show ?case by simp
next
  case (Cons a api)
  then show ?case
    by (auto simp: from_ts_def split: option.splits if_splits sum.splits)
qed

lemma wf_get_events_excludes:
  "wf_get_events env b now K = Inr evs \<Longrightarrow>
     \<forall>ev \<in> set evs. wf_key (ev_sport ev) (ev_event ev) \<notin> K"
  using wf_events_excludes [of "wf_representable env" b now K _ evs]
  by (auto simp: wf_get_events_def split: sum.splits)

lemma dict_or_distinct: "distinct (map fst a) \<Longrightarrow> distinct (map fst (dict_or a b))"
proof (induction b arbitrary: a)
  case Nil
  then show ?case by (simp add: dict_or_def)
next
  case (Cons x b)
  obtain k v where x: "x = (k, v)" by (cases x)
  from Cons.prems have "distinct (map fst (AList.update k v a))"
    by (rule distinct_update)
  from Cons.IH [OF this] show ?case
    by (simp add: dict_or_def x)
qed

text \<open>
  The loop of \<open>scrape\<close> when the events have keys that differ from one another and from
  the keys of \<open>cached_urls\<close>: every entry of \<open>urls\<close> stays an entry of
  \<open>cached_urls\<close>, and the entry of the \<open>j\<close>-th event is the one written for it.
\<close>

lemma wf_loop_distinct:
  "wf_loop env b i evs (u, c) = Some (Inr (u', c')) \<Longrightarrow>
   distinct (map (\<lambda>ev. wf_key (ev_sport ev) (ev_event ev)) evs) \<Longrightarrow>
   \<forall>ev \<in> set evs. wf_key (ev_sport ev) (ev_event ev) \<notin> fst ` set c \<Longrightarrow>
   distinct (map fst c) \<Longrightarrow>
   \<forall>k e. map_of u k = Some e \<longrightarrow> map_of c k = Some e \<Longrightarrow>
     distinct (map fst c')
     \<and> (\<forall>k e. map_of u' k = Some e \<longrightarrow> map_of c' k = Some e)
     \<and> (\<forall>k. k \<notin> (\<lambda>ev. wf_key (ev_sport ev) (ev_event ev)) ` set evs
            \<longrightarrow> map_of c' k = map_of c k)
     \<and> (\<forall>j < length evs. \<exists>r v e.
            safe_process (wf_resolve env (i + j) (evs ! j)) (i + j) 15 = Some r
            \<and> sp_result r = Inr v
            \<and> map_of c' (wf_key (ev_sport (evs ! j)) (ev_event (evs ! j))) = Some e
            \<and> url e = (case v of Some (Some s) \<Rightarrow> Some s | _ \<Rightarrow> None))"
proof (induction evs arbitrary: i u c)
  case Nil
  then show ?case by simp
next
  case (Cons ev evs)
  let ?key = "\<lambda>ev. wf_key (ev_sport ev) (ev_event ev)"
  from Cons.prems(1) obtain r where r: "safe_process (wf_resolve env i ev) i 15 = Some r"
    by (auto split: option.splits)
  from Cons.prems(1) r obtain v where v: "sp_result r = Inr v"
    by (cases "sp_result r") auto
  define w where "w = (case v of Some (Some s) \<Rightarrow> Some s | _ \<Rightarrow> None)"
  define key where "key = wf_key (ev_sport ev) (ev_event ev)"
  define ent where "ent = \<lparr>url = w,
      logo = (case ev_logo ev of Some l \<Rightarrow> l | None \<Rightarrow> snd (get_tvg_info env (ev_sport ev) (ev_event ev))),
      base = b, timestamp = ev_timestamp ev,
      tvg_id = default_id (fst (get_tvg_info env (ev_sport ev) (ev_event ev))), href = None\<rparr>"
  define u1 where "u1 = (if truthy w then AList.update key ent u else u)"
  define c1 where "c1 = AList.update key ent c"
  have step: "wf_loop env b (Suc i) evs (u1, c1) = Some (Inr (u', c'))"
    using Cons.prems(1) r v
    by (simp add: w_def key_def ent_def u1_def c1_def case_prod_beta Let_def
        split del: if_split cong: if_cong)
  have url_ent: "url ent = w"
    by (simp add: ent_def)
  have key_new: "key \<notin> fst ` set c"
    using Cons.prems(3) by (simp add: key_def)
  have key_evs: "key \<notin> ?key ` set evs"
    using Cons.prems(2) by (simp add: key_def)
  have p2: "distinct (map ?key evs)"
    using Cons.prems(2) by simp
  have p3: "\<forall>ev \<in> set evs. ?key ev \<notin> fst ` set c1"
    using Cons.prems(3) key_evs by (auto simp: c1_def dom_update)
  have p4: "distinct (map fst c1)"
    using Cons.prems(4) by (simp add: c1_def distinct_update)
  have c_key: "map_of c key = None"
    using key_new by (simp add: map_of_eq_None_iff)
  have u_key: "map_of u key = None"
  proof (cases "map_of u key")
    case None
    then show ?thesis .
  next
    case (Some e)
    with Cons.prems(5) have "map_of c key = Some e" by simp
    with c_key show ?thesis by simp
  qed
  have p5: "\<forall>k e. map_of u1 k = Some e \<longrightarrow> map_of c1 k = Some e"
  proof (intro allI impI)
    fix k e
    assume a: "map_of u1 k = Some e"
    show "map_of c1 k = Some e"
    proof (cases "k = key")
      case True
      with a u_key have "truthy w \<and> e = ent"
        by (auto simp: u1_def update_conv' split: if_splits)
      with True show ?thesis
        by (simp add: c1_def update_conv')
    next
      case False
      with a have "map_of u k = Some e"
        by (auto simp: u1_def update_conv' split: if_splits)
      with Cons.prems(5) False show ?thesis
        by (simp add: c1_def update_conv')
    qed
  qed
  note ih = Cons.IH [OF step p2 p3 p4 p5]
  have q1: "distinct (map fst c')"
    and q2: "\<forall>k e. map_of u' k = Some e \<longrightarrow> map_of c' k = Some e"
    and q3: "\<forall>k. k \<notin> ?key ` set evs \<longrightarrow> map_of c' k = map_of c1 k"
    and q4: "\<forall>j < length evs. \<exists>r v e.
            safe_process (wf_resolve env (Suc i + j) (evs ! j)) (Suc i + j) 15 = Some r
            \<and> sp_result r = Inr v
            \<and> map_of c' (?key (evs ! j)) = Some e
            \<and> url e = (case v of Some (Some s) \<Rightarrow> Some s | _ \<Rightarrow> None)"
    using ih by blast+
  have c'_key: "map_of c' key = Some ent"
    using q3 key_evs by (simp add: c1_def update_conv')
  have r3: "\<forall>k. k \<notin> ?key ` set (ev # evs) \<longrightarrow> map_of c' k = map_of c k"
    using q3 by (simp add: c1_def update_conv' key_def)
  have r4: "\<forall>j < length (ev # evs). \<exists>r v e.
            safe_process (wf_resolve env (i + j) ((ev # evs) ! j)) (i + j) 15 = Some r
            \<and> sp_result r = Inr v
            \<and> map_of c' (?key ((ev # evs) ! j)) = Some e
            \<and> url e = (case v of Some (Some s) \<Rightarrow> Some s | _ \<Rightarrow> None)"
  proof (intro allI impI)
    fix j
    assume j: "j < length (ev # evs)"
    show "\<exists>r v e.
            safe_process (wf_resolve env (i + j) ((ev # evs) ! j)) (i + j) 15 = Some r
            \<and> sp_result r = Inr v
            \<and> map_of c' (?key ((ev # evs) ! j)) = Some e
            \<and> url e = (case v of Some (Some s) \<Rightarrow> Some s | _ \<Rightarrow> None)"
    proof (cases j)
      case 0
      with r v c'_key url_ent show ?thesis
        by (simp add: key_def w_def)
    next
      case (Suc j')
      with j have "j' < length evs" by simp
      with q4 Suc show ?thesis by simp
    qed
  qed
  from q1 q2 r3 r4 show ?case
    by (intro conjI)
qed

text \<open>
  C10, as the code has it.  In watchfooty's \<open>scrape\<close> every event it tried to resolve
  has an entry under its key in the dict written to the cache, whether the resolution gave
  a URL or not, and no cached key is dropped; every entry of the live dict \<open>urls\<close> has a
  non-empty URL; and a later \<open>get_events\<close> given the keys of the written dict returns
  no event with one of these keys, those of the entries without a URL included.  When the
  events in the time window have keys that differ from one another, then moreover the
  entry written for an event holds what its resolution gave, no URL when
  \<open>safe_process\<close> returned \<open>None\<close>; every entry of \<open>urls\<close> is the entry written
  under its key; and no key whose written entry has no URL is a key of \<open>urls\<close>.
\<close>

theorem wf_scrape_tombstones:
  assumes "wf_scrape env [] cached_urls now = Some (Inr (urls', written))"
  shows "(\<forall>(k, e) \<in> set urls'. truthy (url e))
    \<and> fst ` set cached_urls \<subseteq> fst ` set written
    \<and> (\<forall>base_url events.
          get_base (wf_client_get env) wf_MIRRORS = Some base_url
          \<and> wf_get_events env base_url now (set (map fst cached_urls)) = Inr events
          \<longrightarrow> (\<forall>ev \<in> set events. wf_key (ev_sport ev) (ev_event ev) \<in> fst ` set written))
    \<and> (\<forall>env' base_url' now' events'.
          wf_get_events env' base_url' now' (set (map fst written)) = Inr events'
          \<longrightarrow> (\<forall>ev \<in> set events'. wf_key (ev_sport ev) (ev_event ev) \<notin> fst ` set written))
    \<and> (distinct (map fst cached_urls)
        \<and> (\<forall>base_url events.
              get_base (wf_client_get env) wf_MIRRORS = Some base_url
              \<and> wf_get_events env base_url now (set (map fst cached_urls)) = Inr events
              \<longrightarrow> distinct (map (\<lambda>ev. wf_key (ev_sport ev) (ev_event ev)) events))
        \<longrightarrow> distinct (map fst written)
          \<and> (\<forall>(k, e) \<in> set urls'. (k, e) \<in> set written)
          \<and> (\<forall>(k, e) \<in> set written. \<not> truthy (url e) \<longrightarrow> k \<notin> fst ` set urls')
          \<and> (\<forall>base_url events j.
                get_base (wf_client_get env) wf_MIRRORS = Some base_url
                \<and> wf_get_events env base_url now (set (map fst cached_urls)) = Inr events
                \<and> j < length events
                \<longrightarrow> (\<exists>r v e.
                      safe_process (wf_resolve env (Suc j) (events ! j)) (Suc j) 15 = Some r
                      \<and> sp_result r = Inr v
                      \<and> (wf_key (ev_sport (events ! j)) (ev_event (events ! j)), e) \<in> set written
                      \<and> url e = (case v of Some (Some s) \<Rightarrow> Some s | _ \<Rightarrow> None))))"
proof -
  let ?valid = "filter (\<lambda>(k, v). truthy (url v)) cached_urls"
  let ?key = "\<lambda>ev. wf_key (ev_sport ev) (ev_event ev)"
  have v: "\<forall>(k, e) \<in> set (dict_or [] ?valid). truthy (url e)"
  proof (clarify)
    fix k e
    assume "(k, e) \<in> set (dict_or [] ?valid)"
    from dict_or_set [OF this] have "(k, e) \<in> set ?valid"
      by simp
    then show "truthy (url e)"
      by simp
  qed
  have sub: "\<forall>(k, e) \<in> set (dict_or [] ?valid). (k, e) \<in> set cached_urls"
  proof (clarify)
    fix k e
    assume "(k, e) \<in> set (dict_or [] ?valid)"
    from dict_or_set [OF this] show "(k, e) \<in> set cached_urls"
      by simp
  qed
  have none: "get_base (wf_client_get env) wf_MIRRORS = None \<Longrightarrow>
      urls' = dict_or [] ?valid \<and> written = cached_urls"
    using assms by (auto simp: wf_scrape_def)
  have some: "\<And>base_url. get_base (wf_client_get env) wf_MIRRORS = Some base_url \<Longrightarrow>
      \<exists>events. wf_get_events env base_url now (set (map fst cached_urls)) = Inr events
        \<and> wf_loop env base_url 1 events (dict_or [] ?valid, cached_urls)
             = Some (Inr (urls', written))"
  proof -
    fix base_url
    assume g: "get_base (wf_client_get env) wf_MIRRORS = Some base_url"
    with assms show "\<exists>events. wf_get_events env base_url now (set (map fst cached_urls)) = Inr events
        \<and> wf_loop env base_url 1 events (dict_or [] ?valid, cached_urls)
             = Some (Inr (urls', written))"
      by (cases "wf_get_events env base_url now (set (map fst cached_urls))")
        (simp_all add: wf_scrape_def)
  qed
  have a1: "\<forall>(k, e) \<in> set urls'. truthy (url e)"
  proof (cases "get_base (wf_client_get env) wf_MIRRORS")
    case None
    with none v show ?thesis by simp
  next
    case (Some base_url)
    from some [OF this] obtain events
      where l: "wf_loop env base_url 1 events (dict_or [] ?valid, cached_urls)
                  = Some (Inr (urls', written))"
      by blast
    from wf_loop_inv [OF l v] show ?thesis by simp
  qed
  have a2: "fst ` set cached_urls \<subseteq> fst ` set written"
  proof (cases "get_base (wf_client_get env) wf_MIRRORS")
    case None
    with none show ?thesis by simp
  next
    case (Some base_url)
    from some [OF this] obtain events
      where l: "wf_loop env base_url 1 events (dict_or [] ?valid, cached_urls)
                  = Some (Inr (urls', written))"
      by blast
    from wf_loop_inv [OF l v] show ?thesis by simp
  qed
  have a3: "\<forall>base_url events.
          get_base (wf_client_get env) wf_MIRRORS = Some base_url
          \<and> wf_get_events env base_url now (set (map fst cached_urls)) = Inr events
          \<longrightarrow> (\<forall>ev \<in> set events. ?key ev \<in> fst ` set written)"
  proof (intro allI impI, elim conjE)
    fix base_url events
    assume g: "get_base (wf_client_get env) wf_MIRRORS = Some base_url"
      and e: "wf_get_events env base_url now (set (map fst cached_urls)) = Inr events"
    from some [OF g] e
    have l: "wf_loop env base_url 1 events (dict_or [] ?valid, cached_urls)
                  = Some (Inr (urls', written))"
      by simp
    from wf_loop_inv [OF l v]
    have "fst ` set written = fst ` set cached_urls \<union> ?key ` set events"
      by simp
    then show "\<forall>ev \<in> set events. ?key ev \<in> fst ` set written"
      by simp
  qed
  have a4: "\<forall>env' base_url' now' events'.
          wf_get_events env' base_url' now' (set (map fst written)) = Inr events'
          \<longrightarrow> (\<forall>ev \<in> set events'. ?key ev \<notin> fst ` set written)"
  proof (intro allI impI)
    fix env' base_url' now' events'
    assume "wf_get_events env' base_url' now' (set (map fst written)) = Inr events'"
    from wf_get_events_excludes [OF this]
    show "\<forall>ev \<in> set events'. ?key ev \<notin> fst ` set written"
      by simp
  qed
  have a5: "distinct (map fst cached_urls)
        \<and> (\<forall>base_url events.
              get_base (wf_client_get env) wf_MIRRORS = Some base_url
              \<and> wf_get_events env base_url now (set (map fst cached_urls)) = Inr events
              \<longrightarrow> distinct (map ?key events))
        \<longrightarrow> distinct (map fst written)
          \<and> (\<forall>(k, e) \<in> set urls'. (k, e) \<in> set written)
          \<and> (\<forall>(k, e) \<in> set written. \<not> truthy (url e) \<longrightarrow> k \<notin> fst ` set urls')
          \<and> (\<forall>base_url events j.
                get_base (wf_client_get env) wf_MIRRORS = Some base_url
                \<and> wf_get_events env base_url now (set (map fst cached_urls)) = Inr events
                \<and> j < length events
                \<longrightarrow> (\<exists>r v e.
                      safe_process (wf_resolve env (Suc j) (events ! j)) (Suc j) 15 = Some r
                      \<and> sp_result r = Inr v
                      \<and> (?key (events ! j), e) \<in> set written
                      \<and> url e = (case v of Some (Some s) \<Rightarrow> Some s | _ \<Rightarrow> None)))"
  proof (intro impI, elim conjE)
    assume dc: "distinct (map fst cached_urls)"
      and de: "\<forall>base_url events.
              get_base (wf_client_get env) wf_MIRRORS = Some base_url
              \<and> wf_get_events env base_url now (set (map fst cached_urls)) = Inr events
              \<longrightarrow> distinct (map ?key events)"
    have du: "distinct (map fst (dict_or [] ?valid))"
      by (rule dict_or_distinct) simp
    have m0: "\<forall>k e. map_of (dict_or [] ?valid) k = Some e \<longrightarrow> map_of cached_urls k = Some e"
    proof (intro allI impI)
      fix k e
      assume "map_of (dict_or [] ?valid) k = Some e"
      then have "(k, e) \<in> set (dict_or [] ?valid)"
        by (rule map_of_SomeD)
      with sub have "(k, e) \<in> set cached_urls"
        by auto
      with dc show "map_of cached_urls k = Some e"
        by simp
    qed
    have b1: "distinct (map fst written)"
      and b2: "\<forall>(k, e) \<in> set urls'. (k, e) \<in> set written"
      and b4: "\<forall>base_url events j.
                get_base (wf_client_get env) wf_MIRRORS = Some base_url
                \<and> wf_get_events env base_url now (set (map fst cached_urls)) = Inr events
                \<and> j < length events
                \<longrightarrow> (\<exists>r v e.
                      safe_process (wf_resolve env (Suc j) (events ! j)) (Suc j) 15 = Some r
                      \<and> sp_result r = Inr v
                      \<and> (?key (events ! j), e) \<in> set written
                      \<and> url e = (case v of Some (Some s) \<Rightarrow> Some s | _ \<Rightarrow> None))"
    proof -
      show "distinct (map fst written)"
      proof (cases "get_base (wf_client_get env) wf_MIRRORS")
        case None
        with none dc show ?thesis by simp
      next
        case (Some base_url)
        from some [OF this] obtain events
          where e: "wf_get_events env base_url now (set (map fst cached_urls)) = Inr events"
            and l: "wf_loop env base_url 1 events (dict_or [] ?valid, cached_urls)
                  = Some (Inr (urls', written))"
          by blast
        from de Some e have d: "distinct (map ?key events)"
          by blast
        from wf_get_events_excludes [OF e]
        have x: "\<forall>ev \<in> set events. ?key ev \<notin> fst ` set cached_urls"
          by simp
        from wf_loop_distinct [OF l d x dc m0] show ?thesis
          by blast
      qed
      show "\<forall>(k, e) \<in> set urls'. (k, e) \<in> set written"
      proof (cases "get_base (wf_client_get env) wf_MIRRORS")
        case None
        with none sub show ?thesis by simp
      next
        case (Some base_url)
        from some [OF this] obtain events
          where e: "wf_get_events env base_url now (set (map fst cached_urls)) = Inr events"
            and l: "wf_loop env base_url 1 events (dict_or [] ?valid, cached_urls)
                  = Some (Inr (urls', written))"
          by blast
        from de Some e have d: "distinct (map ?key events)"
          by blast
        from wf_get_events_excludes [OF e]
        have x: "\<forall>ev \<in> set events. ?key ev \<notin> fst ` set cached_urls"
          by simp
        from wf_loop_distinct [OF l d x dc m0]
        have m: "\<forall>k e. map_of urls' k = Some e \<longrightarrow> map_of written k = Some e"
          by blast
        have du': "distinct (map fst urls')"
          using wf_loop_urls_distinct [OF l du] .
        show ?thesis
        proof (clarify)
          fix k e
          assume "(k, e) \<in> set urls'"
          with du' have "map_of urls' k = Some e"
            by simp
          with m have "map_of written k = Some e"
            by simp
          then show "(k, e) \<in> set written"
            by (rule map_of_SomeD)
        qed
      qed
      show "\<forall>base_url events j.
                get_base (wf_client_get env) wf_MIRRORS = Some base_url
                \<and> wf_get_events env base_url now (set (map fst cached_urls)) = Inr events
                \<and> j < length events
                \<longrightarrow> (\<exists>r v e.
                      safe_process (wf_resolve env (Suc j) (events ! j)) (Suc j) 15 = Some r
                      \<and> sp_result r = Inr v
                      \<and> (?key (events ! j), e) \<in> set written
                      \<and> url e = (case v of Some (Some s) \<Rightarrow> Some s | _ \<Rightarrow> None))"
      proof (intro allI impI, elim conjE)
        fix base_url events j
        assume g: "get_base (wf_client_get env) wf_MIRRORS = Some base_url"
          and e: "wf_get_events env base_url now (set (map fst cached_urls)) = Inr events"
          and j: "j < length events"
        from some [OF g] e
        have l: "wf_loop env base_url 1 events (dict_or [] ?valid, cached_urls)
                  = Some (Inr (urls', written))"
          by simp
        from de g e have d: "distinct (map ?key events)"
          by blast
        from wf_get_events_excludes [OF e]
        have x: "\<forall>ev \<in> set events. ?key ev \<notin> fst ` set cached_urls"
          by simp
        from wf_loop_distinct [OF l d x dc m0] j
        obtain r v e' where
          "safe_process (wf_resolve env (1 + j) (events ! j)) (1 + j) 15 = Some r"
          "sp_result r = Inr v"
          "map_of written (?key (events ! j)) = Some e'"
          "url e' = (case v of Some (Some s) \<Rightarrow> Some s | _ \<Rightarrow> None)"
          by blast
        then show "\<exists>r v e.
                      safe_process (wf_resolve env (Suc j) (events ! j)) (Suc j) 15 = Some r
                      \<and> sp_result r = Inr v
                      \<and> (?key (events ! j), e) \<in> set written
                      \<and> url e = (case v of Some (Some s) \<Rightarrow> Some s | _ \<Rightarrow> None)"
          using map_of_SomeD [of written "?key (events ! j)" e'] by auto
      qed
    qed
    have b3: "\<forall>(k, e) \<in> set written. \<not> truthy (url e) \<longrightarrow> k \<notin> fst ` set urls'"
    proof -
      have "k \<notin> fst ` set urls'" if w: "(k, e) \<in> set written" and t: "\<not> truthy (url e)" for k e
      proof
        assume "k \<in> fst ` set urls'"
        then obtain e' where u: "(k, e') \<in> set urls'"
          by force
        from u b2 have "(k, e') \<in> set written"
          by auto
        with b1 w have "e' = e"
          by (metis map_of_is_SomeI option.inject)
        with a1 u t show False
          by auto
      qed
      then show ?thesis
        by auto
    qed
    from b1 b2 b3 b4
    show "distinct (map fst written)
          \<and> (\<forall>(k, e) \<in> set urls'. (k, e) \<in> set written)
          \<and> (\<forall>(k, e) \<in> set written. \<not> truthy (url e) \<longrightarrow> k \<notin> fst ` set urls')
          \<and> (\<forall>base_url events j.
                get_base (wf_client_get env) wf_MIRRORS = Some base_url
                \<and> wf_get_events env base_url now (set (map fst cached_urls)) = Inr events
                \<and> j < length events
                \<longrightarrow> (\<exists>r v e.
                      safe_process (wf_resolve env (Suc j) (events ! j)) (Suc j) 15 = Some r
                      \<and> sp_result r = Inr v
                      \<and> (?key (events ! j), e) \<in> set written
                      \<and> url e = (case v of Some (Some s) \<Rightarrow> Some s | _ \<Rightarrow> None)))"
      by (intro conjI)
  qed
  show ?thesis
    by (intro conjI a1 a2 a3 a4 a5)
qed

lemma ex_wf_base:
  "get_base (wf_client_get ex_wf_env) wf_MIRRORS = Some ''https://www.watchfooty.cc''"
  by (simp add: get_base_def check_status_def ex_wf_env_def wf_MIRRORS_def success_truthy_def)

lemma ex_wf_sport: "wf_sport ''NBA - Regular'' = ''NBA''" "wf_sport ''NBA'' = ''NBA''"
  by (simp_all add: wf_sport_def strip_def is_space_def)

lemma ex_wf_events:
  "wf_get_events ex_wf_env ''https://www.watchfooty.cc'' 100000 {}
     = Inr [ex_wf_event ''A vs B'' ''1'', ex_wf_event ''C vs D'' ''2'']"
  by (simp add: wf_get_events_def ex_wf_env_def ex_wf_sport ex_wf_event_def wf_key_def
      from_ts_def ex_representable_def start_dt_def end_dt_def clean_def Let_def)

lemma ex_wf_events_later:
  "wf_get_events ex_wf_env ''https://www.watchfooty.cc'' 100000
        {''[NBA] A vs B (WFTY)'', ''[NBA] C vs D (WFTY)''} = Inr []"
  by (simp add: wf_get_events_def ex_wf_env_def ex_wf_sport wf_key_def
      from_ts_def ex_representable_def start_dt_def end_dt_def clean_def Let_def)

lemma ex_safe_process:
  "safe_process \<lparr>finish = Some (3, Returns v), on_cancel = Some (Raises CancelledError)\<rparr> i 15
     = Some \<lparr>sp_result = Inr (Some v), sp_log = [], sp_task = Finished (Returns v),
             sp_ops = [CreateTask, WaitFor]\<rparr>"
  "safe_process \<lparr>finish = None, on_cancel = Some (Raises CancelledError)\<rparr> i 15
     = Some \<lparr>sp_result = Inr None, sp_log = [(WARNING, i)],
             sp_task = Finished (Raises CancelledError),
             sp_ops = [CreateTask, WaitFor, WaitForCancel, WaitForAwait, Cancel, Await]\<rparr>"
  by (simp_all add: safe_process_def wait_for_def expired_def task_cancel_def await_task_def)

lemma ex_wf_resolve:
  "wf_resolve ex_wf_env (Suc 0) ev
     = \<lparr>finish = Some (3, Returns (Some ''https://x/b.m3u8'')), on_cancel = Some (Raises CancelledError)\<rparr>"
  "wf_resolve ex_wf_env (Suc (Suc 0)) ev = \<lparr>finish = None, on_cancel = Some (Raises CancelledError)\<rparr>"
  "get_tvg_info ex_wf_env sp nm = (None, Link ''pic'')"
  by (simp_all add: ex_wf_env_def)

lemma ex_wf_loop:
  "wf_loop ex_wf_env ''https://www.watchfooty.cc'' (Suc 0)
       [ex_wf_event ''A vs B'' ''1'', ex_wf_event ''C vs D'' ''2''] ([], [])
     = Some (Inr ([(''[NBA] A vs B (WFTY)'', ex_wf_entry (Some ''https://x/b.m3u8''))],
                  [(''[NBA] A vs B (WFTY)'', ex_wf_entry (Some ''https://x/b.m3u8'')),
                   (''[NBA] C vs D (WFTY)'', ex_wf_entry None)]))"
  apply (simp only: wf_loop.simps One_nat_def)
  apply (simp only: ex_wf_resolve)
  apply (simp only: ex_safe_process)
  apply (simp add: Let_def ex_wf_event_def ex_wf_entry_def wf_key_def default_id_def)
  done

lemma ex_wf_scrape:
  "wf_scrape ex_wf_env [] [] 100000
     = Some (Inr ([(''[NBA] A vs B (WFTY)'', ex_wf_entry (Some ''https://x/b.m3u8''))],
                  [(''[NBA] A vs B (WFTY)'', ex_wf_entry (Some ''https://x/b.m3u8'')),
                   (''[NBA] C vs D (WFTY)'', ex_wf_entry None)]))"
  by (simp add: wf_scrape_def ex_wf_base ex_wf_events ex_wf_loop dict_or_def
      del: wf_loop.simps)

theorem wf_scrape_tombstones_witness:
  "wf_scrape ex_wf_env [] [] 100000
     = Some (Inr ([(''[NBA] A vs B (WFTY)'', ex_wf_entry (Some ''https://x/b.m3u8''))],
                  [(''[NBA] A vs B (WFTY)'', ex_wf_entry (Some ''https://x/b.m3u8'')),
                   (''[NBA] C vs D (WFTY)'', ex_wf_entry None)]))
   \<and> truthy (url (ex_wf_entry (Some ''https://x/b.m3u8'')))
   \<and> \<not> truthy (url (ex_wf_entry None))
   \<and> wf_get_events ex_wf_env ''https://www.watchfooty.cc'' 100000
        {''[NBA] A vs B (WFTY)'', ''[NBA] C vs D (WFTY)''} = Inr []
   \<and> distinct (map (\<lambda>ev. wf_key (ev_sport ev) (ev_event ev))
        [ex_wf_event ''A vs B'' ''1'', ex_wf_event ''C vs D'' ''2''])
   \<and> ''[NBA] C vs D (WFTY)''
        \<notin> fst ` set [(''[NBA] A vs B (WFTY)'', ex_wf_entry (Some ''https://x/b.m3u8''))]"
proof -
  let ?urls = "[(''[NBA] A vs B (WFTY)'', ex_wf_entry (Some ''https://x/b.m3u8''))]"
  let ?written = "[(''[NBA] A vs B (WFTY)'', ex_wf_entry (Some ''https://x/b.m3u8'')),
                   (''[NBA] C vs D (WFTY)'', ex_wf_entry None)]"
  have d: "distinct (map (\<lambda>ev. wf_key (ev_sport ev) (ev_event ev))
        [ex_wf_event ''A vs B'' ''1'', ex_wf_event ''C vs D'' ''2''])"
    by (simp add: ex_wf_event_def wf_key_def)
  have h: "distinct (map fst ([] :: dict))
        \<and> (\<forall>base_url events.
              get_base (wf_client_get ex_wf_env) wf_MIRRORS = Some base_url
              \<and> wf_get_events ex_wf_env base_url 100000 (set (map fst ([] :: dict))) = Inr events
              \<longrightarrow> distinct (map (\<lambda>ev. wf_key (ev_sport ev) (ev_event ev)) events))"
    using d by (auto simp: ex_wf_base ex_wf_events)
  from wf_scrape_tombstones [OF ex_wf_scrape] h
  have "\<forall>(k, e) \<in> set ?written. \<not> truthy (url e) \<longrightarrow> k \<notin> fst ` set ?urls"
    by blast
  then have "''[NBA] C vs D (WFTY)'' \<notin> fst ` set ?urls"
    by (simp add: ex_wf_entry_def)
  with d ex_wf_scrape ex_wf_events_later show ?thesis
    by (simp add: ex_wf_entry_def)
qed

text \<open>
  As it is written the property fails when the API lists a match twice inside the time
  window: \<open>get_events\<close> returns both events, since it compares keys with the cache
  only; the first resolves and its entry goes into \<open>urls\<close>; the second runs into the
  deadline and its entry, without a URL, replaces the first under the same key in the
  dict written to the cache.  The key is then one of an entry without a URL and a key of
  the live output.
\<close>

lemma ex_wf_twice_events:
  "wf_get_events ex_wf_env_twice ''https://www.watchfooty.cc'' 100000 {}
     = Inr [ex_wf_event ''A vs B'' ''1'', ex_wf_event ''A vs B'' ''2'']"
  by (simp add: wf_get_events_def ex_wf_env_twice_def ex_wf_env_def ex_wf_sport ex_wf_event_def
      wf_key_def from_ts_def ex_representable_def start_dt_def end_dt_def clean_def Let_def)

lemma ex_wf_twice_resolve:
  "wf_resolve ex_wf_env_twice (Suc 0) ev
     = \<lparr>finish = Some (3, Returns (Some ''https://x/b.m3u8'')),
        on_cancel = Some (Raises CancelledError)\<rparr>"
  "wf_resolve ex_wf_env_twice (Suc (Suc 0)) ev
     = \<lparr>finish = None, on_cancel = Some (Raises CancelledError)\<rparr>"
  "get_tvg_info ex_wf_env_twice sp nm = (None, Link ''pic'')"
  "get_base (wf_client_get ex_wf_env_twice) wf_MIRRORS = Some ''https://www.watchfooty.cc''"
  by (simp_all add: ex_wf_env_twice_def ex_wf_env_def get_base_def check_status_def
      wf_MIRRORS_def success_truthy_def)

lemma ex_wf_twice_loop:
  "wf_loop ex_wf_env_twice ''https://www.watchfooty.cc'' (Suc 0)
       [ex_wf_event ''A vs B'' ''1'', ex_wf_event ''A vs B'' ''2''] ([], [])
     = Some (Inr ([(''[NBA] A vs B (WFTY)'', ex_wf_entry (Some ''https://x/b.m3u8''))],
                  [(''[NBA] A vs B (WFTY)'', ex_wf_entry None)]))"
  apply (simp only: wf_loop.simps One_nat_def)
  apply (simp only: ex_wf_twice_resolve)
  apply (simp only: ex_safe_process)
  apply (simp add: Let_def ex_wf_event_def ex_wf_entry_def wf_key_def default_id_def)
  done

theorem wf_scrape_tombstone_live:
  "wf_scrape ex_wf_env_twice [] [] 100000
     = Some (Inr ([(''[NBA] A vs B (WFTY)'', ex_wf_entry (Some ''https://x/b.m3u8''))],
                  [(''[NBA] A vs B (WFTY)'', ex_wf_entry None)]))
   \<and> \<not> truthy (url (ex_wf_entry None))
   \<and> ''[NBA] A vs B (WFTY)''
        \<in> fst ` set [(''[NBA] A vs B (WFTY)'', ex_wf_entry (Some ''https://x/b.m3u8''))]"
  by (simp add: wf_scrape_def ex_wf_twice_resolve ex_wf_twice_events ex_wf_twice_loop dict_or_def
      ex_wf_entry_def del: wf_loop.simps)

section \<open>fstv: an event whose key is cached\<close>






section \<open>Top level: one adapter's exception\<close>

lemma gather_raises: "Inl e \<in> set tasks \<Longrightarrow> \<exists>e'. gather tasks = Inl e'"
  by (induction tasks) (auto split: sum.splits)

lemma main_raises: "Inl e \<in> set scrapes \<Longrightarrow> \<exists>e'. main data scrapes = Inl e'"
  using gather_raises [of e scrapes] by (auto simp: main_def)

lemma ex_fstv_base:
  "get_base (fs_client_get ex_fstv_env) fstv_MIRRORS = Some ''https://fstv.online''"
  by (simp add: get_base_def check_status_def ex_fstv_env_def fstv_MIRRORS_def success_truthy_def)

lemma ex_fstv_events:
  "fstv_get_events ''https://fstv.online'' (fs_page ex_fstv_env ''https://fstv.online'') {}
     = ([\<lparr>fs_sport = ''NBA'', fs_link = Urljoin ''https://fstv.online'' ''/match/1'',
           fs_href = ''/match/1''\<rparr>,
         \<lparr>fs_sport = ''NBA'', fs_link = Urljoin ''https://fstv.online'' ''/match/2'',
           fs_href = ''/match/2''\<rparr>], {''/match/1'', ''/match/2''})"
  by (auto simp: fstv_get_events_def ex_fstv_env_def ex_page_def fstv_event_name_def strip_def
      is_space_def)

lemma ex_fstv_resolve:
  "fs_resolve ex_fstv_env i ev = \<lparr>finish = None, on_cancel = Some (Raises CancelledError)\<rparr>"
  by (simp add: ex_fstv_env_def)

lemma ex_fstv_loop:
  "fstv_loop ex_fstv_env b now i (ev # evs) ([], []) = Some (Inl TypeError)"
  apply (simp only: fstv_loop.simps)
  apply (simp only: ex_fstv_resolve)
  apply (simp only: ex_safe_process)
  apply simp
  done

lemma ex_fstv_scrape: "fstv_scrape ex_fstv_env [] [] 100000 = Some (Inl TypeError)"
  by (simp add: fstv_scrape_def ex_fstv_base List.map_filter_simps ex_fstv_events ex_fstv_loop
      dict_or_def del: fstv_loop.simps)

lemma ex_wf_down_base:
  "get_base (wf_client_get ex_wf_env_down) wf_MIRRORS = Some ''https://www.watchfooty.cc''"
  by (simp add: get_base_def check_status_def ex_wf_env_down_def ex_wf_env_def wf_MIRRORS_def
      success_truthy_def)

lemma ex_wf_down_events:
  "wf_get_events ex_wf_env_down b now K = Inl IndexError"
  by (simp add: wf_get_events_def refresh_api_cache_def ex_wf_env_down_def ex_wf_env_def)

lemma ex_wf_down_scrape: "wf_scrape ex_wf_env_down [] [] 100000 = Some (Inl IndexError)"
  by (simp add: wf_scrape_def ex_wf_down_base ex_wf_down_events)

text \<open>
  C1.  An exception in one adapter's \<open>scrape\<close> should not keep \<open>main\<close> from writing
  the two playlists from what the other adapters gave.  Here fstv has one event whose
  resolution runs into the deadline: \<open>safe_process\<close> returns \<open>None\<close>, unpacking it
  raises TypeError in fstv's \<open>scrape\<close>, and \<open>main\<close>, whose \<open>gather\<close> passes the
  exception on, raises it and writes nothing, although another adapter has an entry.
  The same happens with the IndexError of watchfooty when no endpoint of its API
  answers.
\<close>

theorem main_fails_fast:
  "task_of (fstv_scrape ex_fstv_env [] [] 100000) = Some (Inl TypeError)
   \<and> main ''#EXTM3U'' [Inl TypeError, Inr [(''[NFL] b (PPV)'', ex_entry ''u1'')]] = Inl TypeError
   \<and> task_of (wf_scrape ex_wf_env_down [] [] 100000) = Some (Inl IndexError)
   \<and> main ''#EXTM3U'' [Inr [(''[NFL] b (PPV)'', ex_entry ''u1'')], Inl IndexError] = Inl IndexError"
  by (simp add: task_of_def ex_fstv_scrape ex_wf_down_scrape main_def)

end
